theory Spec2Isabelle
  imports Main "HOL-Library.Word" "HOL-Library.Signed_Division"
begin

unbundle bit_operations_syntax

section \<open>Machine types\<close>

text \<open>
  The sketch runs on fixed-width integers.  Unsigned types are words read with \<open>unat\<close>;
  the signed types \<open>int16_t\<close> and \<open>int8_t\<close> are words of the same width read with
  \<open>sint\<close> (two's complement), compared with \<open><s\<close> and widened with \<open>scast\<close>.
  Arithmetic on words wraps around, as the C++ arithmetic on these types does.
\<close>

type_synonym uint8_t = "8 word"
type_synonym uint16_t = "16 word"
type_synonym uint32_t = "32 word"
type_synonym int8_t = "8 word"
type_synonym int16_t = "16 word"

text \<open>
  What C++ leaves undefined is a value of the model: a division by zero, and an array
  access outside the array.
\<close>

datatype fault = DivisionByZero | IndexOutOfBounds

section \<open>Colors\<close>

text \<open>
  Modelled from the spec: the FastLED type \<open>CRGB\<close> is a library type, not part of the
  sketch.  A color is three 8-bit components; the constructor from a 32-bit color code
  reads a packed RGB value (\<open>0xRRGGBB\<close>) and drops the top byte; two colors are equal
  when the three components are.
\<close>

record CRGB =
  red :: uint8_t
  green :: uint8_t
  blue :: uint8_t

definition CRGB_colorcode :: "uint32_t \<Rightarrow> CRGB" where
  "CRGB_colorcode c =
     \<lparr>red = ucast (drop_bit 16 c), green = ucast (drop_bit 8 c), blue = ucast c\<rparr>"

section \<open>The fade object: class cNeoFade\<close>

text \<open>
  The private members \<open>_r0\<close>, \<open>_steps\<close>, ... are the fields \<open>nf_r0\<close>, \<open>nf_steps\<close>, ...
\<close>

record cNeoFade =
  nf_r0 :: int16_t
  nf_g0 :: int16_t
  nf_b0 :: int16_t
  nf_r1 :: int16_t
  nf_g1 :: int16_t
  nf_b1 :: int16_t
  nf_steps :: int16_t
  nf_dR :: int16_t
  nf_dG :: int16_t
  nf_dB :: int16_t
  nf_dMax :: int16_t
  nf_sR :: int8_t
  nf_sG :: int8_t
  nf_sB :: int8_t
  nf_ended :: bool
  nf_timeStart :: uint32_t
  nf_timeInterval :: uint32_t

definition isEnded :: "cNeoFade \<Rightarrow> bool" where
  "isEnded this = nf_ended this"

definition uiabs :: "uint16_t \<Rightarrow> uint16_t \<Rightarrow> uint16_t" where
  "uiabs a b = (if a > b then a - b else b - a)"

definition max3 :: "uint16_t \<Rightarrow> uint16_t \<Rightarrow> uint16_t \<Rightarrow> uint16_t" where
  "max3 x y z =
     (if x > y then (if x > z then x else z)
      else (if y > z then y else z))"

text \<open>
  \<open>setFade\<close> assigns every member, so the object it is called on (fresh from the
  constructor, which only sets \<open>_ended = true\<close>) does not appear.  The division
  \<open>period / _steps\<close> has a \<open>uint16_t\<close> dividend and an \<open>int16_t\<close> divisor between 0 and
  255: it is an unsigned division, and its divisor is zero when the two colors are equal.
  The source has no check before it; the model returns \<open>DivisionByZero\<close> there.
\<close>

definition setFade :: "uint16_t \<Rightarrow> CRGB \<Rightarrow> CRGB \<Rightarrow> fault + cNeoFade" where
  "setFade period rgb0 rgb1 =
     (let r0 = (ucast (red rgb0) :: int16_t); r1 = (ucast (red rgb1) :: int16_t);
          g0 = (ucast (green rgb0) :: int16_t); g1 = (ucast (green rgb1) :: int16_t);
          b0 = (ucast (blue rgb0) :: int16_t); b1 = (ucast (blue rgb1) :: int16_t);
          dR = uiabs r1 r0; sR = (if r0 <s r1 then 1 else - 1);
          dG = uiabs g1 g0; sG = (if g0 <s g1 then 1 else - 1);
          dB = uiabs b1 b0; sB = (if b0 <s b1 then 1 else - 1);
          dMax = max3 dR dG dB;
          steps = dMax;
          err = (word_of_int (sint dMax sdiv 2) :: int16_t)
      in if steps = 0 then Inl DivisionByZero
         else
           let timeInterval = (ucast (period div steps) :: uint32_t)
           in Inr \<lparr>nf_r0 = r0, nf_g0 = g0, nf_b0 = b0,
                   nf_r1 = err, nf_g1 = err, nf_b1 = err,
                   nf_steps = steps,
                   nf_dR = dR, nf_dG = dG, nf_dB = dB, nf_dMax = dMax,
                   nf_sR = sR, nf_sG = sG, nf_sB = sB,
                   nf_ended = False,
                   nf_timeStart = 0,
                   nf_timeInterval = (if timeInterval = 0 then 1 else timeInterval)\<rparr>)"

text \<open>
  \<open>getNext\<close> reads the clock a second time (\<open>millis()\<close>) when it records the start of
  the step; that reading is the parameter \<open>ms\<close>.  The out-parameter \<open>rgb\<close> is the
  second component of the result: \<open>None\<close> when the call returns before writing it.
\<close>

definition getNext :: "uint32_t \<Rightarrow> uint32_t \<Rightarrow> cNeoFade \<Rightarrow> bool \<times> CRGB option \<times> cNeoFade" where
  "getNext nowTime ms this =
     (if \<not> nf_ended this \<and> nowTime - nf_timeStart this < nf_timeInterval this
      then (False, None, this)
      else
        let rgb = \<lparr>red = ucast (nf_r0 this), green = ucast (nf_g0 this),
                   blue = ucast (nf_b0 this)\<rparr>;
            ended = (nf_steps this = 0)
        in if \<not> ended then
             let r1 = nf_r1 this - nf_dR this;
                 g1 = nf_g1 this - nf_dG this;
                 b1 = nf_b1 this - nf_dB this
             in (True, Some rgb,
                 this\<lparr>nf_timeStart := ms, nf_ended := False,
                      nf_steps := nf_steps this - 1,
                      nf_r1 := (if r1 <s 0 then r1 + nf_dMax this else r1),
                      nf_r0 := (if r1 <s 0 then nf_r0 this + scast (nf_sR this) else nf_r0 this),
                      nf_g1 := (if g1 <s 0 then g1 + nf_dMax this else g1),
                      nf_g0 := (if g1 <s 0 then nf_g0 this + scast (nf_sG this) else nf_g0 this),
                      nf_b1 := (if b1 <s 0 then b1 + nf_dMax this else b1),
                      nf_b0 := (if b1 <s 0 then nf_b0 this + scast (nf_sB this) else nf_b0 this)\<rparr>)
           else (False, Some rgb, this\<lparr>nf_timeStart := ms, nf_ended := True\<rparr>))"

section \<open>Sequence tables and scratchpads\<close>

text \<open>
  \<open>state_t\<close> is a C++ enumeration; the member \<open>stateID\<close> stores its integer value, and
  the \<open>switch\<close> of the interpreter has a \<open>default\<close> branch for the values that are none
  of the six enumerators.  So the model keeps the integer.
\<close>

type_synonym state_t = int

definition MB_NULL :: state_t where "MB_NULL = 0"
definition MB_SET :: state_t where "MB_SET = 1"
definition MB_FADE :: state_t where "MB_FADE = 2"
definition MB_LOOP :: state_t where "MB_LOOP = 3"
definition MB_GOTO :: state_t where "MB_GOTO = 4"
definition MB_STOP :: state_t where "MB_STOP = 5"

definition NUM_LEDS :: nat where "NUM_LEDS = 8"
definition MAX_STATE :: nat where "MAX_STATE = 5"

record stateDef_t =
  stateID :: state_t
  activeTime :: uint32_t
  data1 :: uint32_t
  data2 :: uint32_t

record sequence_t =
  ledId :: uint8_t
  state :: "stateDef_t list"

record scratchpad_t =
  enabled :: bool
  currentState :: uint8_t
  lastWakeup :: uint32_t
  nf :: "cNeoFade option"
  counter :: uint16_t

text \<open>The initializer macros \<open>SET\<close>, \<open>DO\<close>, \<open>FADE\<close>, \<open>GOTO\<close>, \<open>STOP\<close> and \<open>NOP\<close>.\<close>

definition SET :: "uint32_t \<Rightarrow> uint32_t \<Rightarrow> stateDef_t" where
  "SET t c = \<lparr>stateID = MB_SET, activeTime = t, data1 = c, data2 = 0\<rparr>"

definition DO :: "uint32_t \<Rightarrow> uint32_t \<Rightarrow> uint32_t \<Rightarrow> stateDef_t" where
  "DO t j n = \<lparr>stateID = MB_LOOP, activeTime = t, data1 = j, data2 = n\<rparr>"

definition FADE :: "uint32_t \<Rightarrow> uint32_t \<Rightarrow> uint32_t \<Rightarrow> stateDef_t" where
  "FADE t c1 c2 = \<lparr>stateID = MB_FADE, activeTime = t, data1 = c1, data2 = c2\<rparr>"

definition GOTO :: "uint32_t \<Rightarrow> uint32_t \<Rightarrow> stateDef_t" where
  "GOTO t j = \<lparr>stateID = MB_GOTO, activeTime = t, data1 = j, data2 = 0\<rparr>"

definition STOP :: stateDef_t where
  "STOP = \<lparr>stateID = MB_STOP, activeTime = 0, data1 = 0, data2 = 0\<rparr>"

definition NOP :: stateDef_t where
  "NOP = \<lparr>stateID = MB_NULL, activeTime = 0, data1 = 0, data2 = 0\<rparr>"

text \<open>
  The globals \<open>leds\<close> (an array of \<open>NUM_LEDS\<close> colors) and \<open>needsUpdate\<close>.
\<close>

record led_output =
  leds :: "CRGB list"
  needsUpdate :: bool

text \<open>
  \<open>T.state[cs]\<close>: the array has \<open>MAX_STATE\<close> elements, and the elements an initializer
  list leaves out are zero, which is \<open>NOP\<close>.
\<close>

definition stateAt :: "sequence_t \<Rightarrow> uint8_t \<Rightarrow> fault + stateDef_t" where
  "stateAt T cs =
     (if unat cs < MAX_STATE
      then Inr (if unat cs < length (state T) then state T ! unat cs else NOP)
      else Inl IndexOutOfBounds)"

text \<open>\<open>leds[T.ledId] = c; needsUpdate = true;\<close>\<close>

definition setLed :: "sequence_t \<Rightarrow> CRGB \<Rightarrow> led_output \<Rightarrow> led_output" where
  "setLed T c out = out\<lparr>leds := (leds out)[unat (ledId T) := c], needsUpdate := True\<rparr>"

section \<open>BlinkInit\<close>

definition resetScratchpad :: "uint32_t \<Rightarrow> scratchpad_t \<Rightarrow> scratchpad_t" where
  "resetScratchpad now pS =
     pS\<lparr>enabled := True, currentState := 0, lastWakeup := now, counter := 0, nf := None\<rparr>"

text \<open>
  The loop \<open>for (i = 0; i < tableSize; i++, pS++)\<close> over the scratchpad array: \<open>n\<close> is
  the number of iterations left and the list is what \<open>pS\<close> points at.  Running off the
  end of the array is \<open>IndexOutOfBounds\<close>.
\<close>

fun BlinkInit_loop :: "uint32_t \<Rightarrow> nat \<Rightarrow> scratchpad_t list \<Rightarrow> fault + scratchpad_t list" where
  "BlinkInit_loop now 0 pS = Inr pS"
| "BlinkInit_loop now (Suc n) [] = Inl IndexOutOfBounds"
| "BlinkInit_loop now (Suc n) (s # pS) =
     (case BlinkInit_loop now n pS of
        Inl e \<Rightarrow> Inl e
      | Inr pS' \<Rightarrow> Inr (resetScratchpad now s # pS'))"

definition BlinkInit ::
  "uint32_t \<Rightarrow> scratchpad_t list \<Rightarrow> uint8_t \<Rightarrow> led_output \<Rightarrow> fault + scratchpad_t list \<times> led_output" where
  "BlinkInit now pS tableSize out =
     (case BlinkInit_loop now (unat tableSize) pS of
        Inl e \<Rightarrow> Inl e
      | Inr pS' \<Rightarrow> Inr (pS', out\<lparr>needsUpdate := True\<rparr>))"

section \<open>MultiBlink: the interpreter\<close>

text \<open>
  One iteration of the \<open>for\<close> loop of \<open>MultiBlink\<close> works on one table entry \<open>T\<close> and
  its scratchpad \<open>pS\<close>.  Its inputs from outside are \<open>now\<close> (the \<open>millis()\<close> read once
  at the start of \<open>MultiBlink\<close>), \<open>new_ok\<close> (whether \<open>new cNeoFade\<close> returns an object)
  and \<open>ms\<close> (the \<open>millis()\<close> read inside \<open>getNext\<close>).

  Each branch of the \<open>switch\<close> returns the scratchpad, the output and the two locals
  \<open>setNextState\<close> and \<open>nextState\<close> (an \<open>int16_t\<close>, \<open>- 1\<close> when no jump is asked for).
\<close>

type_synonym switch_result = "scratchpad_t \<times> led_output \<times> bool \<times> int16_t"

definition case_MB_SET ::
  "sequence_t \<Rightarrow> stateDef_t \<Rightarrow> bool \<Rightarrow> scratchpad_t \<Rightarrow> led_output \<Rightarrow> fault + switch_result" where
  "case_MB_SET T sd timeExpired pS out =
     (if unat (ledId T) < NUM_LEDS then
        (if leds out ! unat (ledId T) \<noteq> CRGB_colorcode (data1 sd)
         then Inr (pS, setLed T (CRGB_colorcode (data1 sd)) out, timeExpired, - 1)
         else Inr (pS, out, timeExpired, - 1))
      else Inl IndexOutOfBounds)"

definition case_MB_FADE ::
  "uint32_t \<Rightarrow> bool \<Rightarrow> uint32_t \<Rightarrow> sequence_t \<Rightarrow> stateDef_t \<Rightarrow> bool \<Rightarrow> scratchpad_t \<Rightarrow> led_output
     \<Rightarrow> fault + switch_result" where
  "case_MB_FADE now new_ok ms T sd timeExpired pS out =
     (if timeExpired then
        (if unat (ledId T) < NUM_LEDS
         then Inr (pS\<lparr>nf := None\<rparr>, setLed T (CRGB_colorcode (data2 sd)) out, True, - 1)
         else Inl IndexOutOfBounds)
      else
        (case nf pS of
           None \<Rightarrow>
             (case (if new_ok
                    then map_sum id Some
                           (setFade (ucast (activeTime sd)) (CRGB_colorcode (data1 sd))
                              (CRGB_colorcode (data2 sd)))
                    else Inr None) of
                Inl e \<Rightarrow> Inl e
              | Inr p \<Rightarrow>
                  (if unat (ledId T) < NUM_LEDS
                   then Inr (pS\<lparr>nf := p\<rparr>, setLed T (CRGB_colorcode (data1 sd)) out, False, - 1)
                   else Inl IndexOutOfBounds))
         | Some f \<Rightarrow>
             (if \<not> isEnded f then
                (case getNext now ms f of
                   (True, Some rgb, f') \<Rightarrow>
                     (if unat (ledId T) < NUM_LEDS
                      then Inr (pS\<lparr>nf := Some f'\<rparr>, setLed T rgb out, False, - 1)
                      else Inl IndexOutOfBounds)
                 | (_, _, f') \<Rightarrow> Inr (pS\<lparr>nf := Some f'\<rparr>, out, False, - 1))
              else Inr (pS, out, False, - 1))))"

definition case_MB_LOOP ::
  "stateDef_t \<Rightarrow> bool \<Rightarrow> scratchpad_t \<Rightarrow> led_output \<Rightarrow> fault + switch_result" where
  "case_MB_LOOP sd timeExpired pS out =
     (if timeExpired then
        (let pS1 = pS\<lparr>counter := counter pS + 1\<rparr>
         in if data2 sd > ucast (counter pS1)
            then Inr (pS1, out, False, ucast (data1 sd))
            else Inr (pS1\<lparr>counter := 0\<rparr>, out, True, - 1))
      else Inr (pS, out, False, - 1))"

definition case_MB_GOTO ::
  "stateDef_t \<Rightarrow> bool \<Rightarrow> scratchpad_t \<Rightarrow> led_output \<Rightarrow> fault + switch_result" where
  "case_MB_GOTO sd timeExpired pS out =
     (if timeExpired then Inr (pS, out, False, ucast (data1 sd))
      else Inr (pS, out, False, - 1))"

definition switch_stateID ::
  "uint32_t \<Rightarrow> bool \<Rightarrow> uint32_t \<Rightarrow> sequence_t \<Rightarrow> stateDef_t \<Rightarrow> bool \<Rightarrow> scratchpad_t \<Rightarrow> led_output
     \<Rightarrow> fault + switch_result" where
  "switch_stateID now new_ok ms T sd timeExpired pS out =
     (if stateID sd = MB_SET then case_MB_SET T sd timeExpired pS out
      else if stateID sd = MB_FADE then case_MB_FADE now new_ok ms T sd timeExpired pS out
      else if stateID sd = MB_LOOP then case_MB_LOOP sd timeExpired pS out
      else if stateID sd = MB_GOTO then case_MB_GOTO sd timeExpired pS out
      else if stateID sd = MB_STOP then Inr (pS\<lparr>enabled := False\<rparr>, out, False, - 1)
      else if stateID sd = MB_NULL then Inr (pS, out, True, - 1)
      else Inr (pS, out, True, - 1))"

text \<open>
  The end of the loop body: \<open>if (setNextState) nextState = pS->currentState + 1;\<close> and
  then, unless \<open>nextState\<close> is \<open>- 1\<close>, the wake-up time moves on by the active time and
  \<open>currentState\<close> is \<open>nextState % MAX_STATE\<close>.  The remainder is computed on signed
  integers (it has the sign of \<open>nextState\<close>) and stored into a \<open>uint8_t\<close>.
\<close>

definition setNext :: "stateDef_t \<Rightarrow> switch_result \<Rightarrow> scratchpad_t \<times> led_output" where
  "setNext sd = (\<lambda>(pS, out, setNextState, nextState0).
     let nextState = (if setNextState then (ucast (currentState pS) + 1 :: int16_t) else nextState0)
     in if nextState \<noteq> - 1
        then (pS\<lparr>lastWakeup := lastWakeup pS + activeTime sd,
                 currentState := word_of_int (sint nextState smod int MAX_STATE)\<rparr>, out)
        else (pS, out))"

definition MultiBlink_entry ::
  "uint32_t \<Rightarrow> bool \<Rightarrow> uint32_t \<Rightarrow> sequence_t \<Rightarrow> scratchpad_t \<times> led_output
     \<Rightarrow> fault + scratchpad_t \<times> led_output" where
  "MultiBlink_entry now new_ok ms T = (\<lambda>(pS, out).
     if enabled pS then
       (case stateAt T (currentState pS) of
          Inl e \<Rightarrow> Inl e
        | Inr sd \<Rightarrow>
            (let timeExpired = (now - lastWakeup pS \<ge> activeTime sd)
             in case switch_stateID now new_ok ms T sd timeExpired pS out of
                  Inl e \<Rightarrow> Inl e
                | Inr res \<Rightarrow> Inr (setNext sd res)))
     else Inr (pS, out))"

text \<open>
  The function \<open>MultiBlink\<close> itself: the loop over the first \<open>tableSize\<close> entries of
  the table and of the scratchpad array, in table order.  \<open>new_ok i\<close> and \<open>ms i\<close> are
  the two outside inputs while entry \<open>i\<close> is worked on.
\<close>

fun MultiBlink_loop ::
  "uint32_t \<Rightarrow> (nat \<Rightarrow> bool) \<Rightarrow> (nat \<Rightarrow> uint32_t) \<Rightarrow> nat \<Rightarrow> nat \<Rightarrow> sequence_t list
     \<Rightarrow> scratchpad_t list \<Rightarrow> led_output \<Rightarrow> fault + scratchpad_t list \<times> led_output" where
  "MultiBlink_loop now new_ok ms i 0 pT pS out = Inr (pS, out)"
| "MultiBlink_loop now new_ok ms i (Suc n) (T # pT) (s # pS) out =
     (case MultiBlink_entry now (new_ok i) (ms i) T (s, out) of
        Inl e \<Rightarrow> Inl e
      | Inr (s', out') \<Rightarrow>
          (case MultiBlink_loop now new_ok ms (Suc i) n pT pS out' of
             Inl e \<Rightarrow> Inl e
           | Inr (pS', out'') \<Rightarrow> Inr (s' # pS', out'')))"
| "MultiBlink_loop now new_ok ms i (Suc n) pT pS out = Inl IndexOutOfBounds"

definition MultiBlink ::
  "uint32_t \<Rightarrow> (nat \<Rightarrow> bool) \<Rightarrow> (nat \<Rightarrow> uint32_t) \<Rightarrow> sequence_t list \<Rightarrow> scratchpad_t list
     \<Rightarrow> uint8_t \<Rightarrow> led_output \<Rightarrow> fault + scratchpad_t list \<times> led_output" where
  "MultiBlink now new_ok ms pT pS tableSize out =
     MultiBlink_loop now new_ok ms 0 (unat tableSize) pT pS out"

section \<open>Successive passes\<close>

text \<open>
  \<open>loop()\<close> calls \<open>MultiBlink\<close> once per pass, and before the call it shows the LEDs and
  clears \<open>needsUpdate\<close> when the flag is set.  \<open>entry_passes\<close> is a run of passes as one
  table entry sees them: each tick is the triple \<open>(now, new_ok, ms)\<close> of that pass, and
  the result lists the scratchpad and the output after each pass.  A flag that is set in
  that list is a pass in which the entry asked for an update.
\<close>

fun entry_passes ::
  "(uint32_t \<times> bool \<times> uint32_t) list \<Rightarrow> sequence_t \<Rightarrow> scratchpad_t \<times> led_output
     \<Rightarrow> fault + (scratchpad_t \<times> led_output) list" where
  "entry_passes [] T s = Inr []"
| "entry_passes ((now, new_ok, ms) # ticks) T (pS, out) =
     (case MultiBlink_entry now new_ok ms T (pS, out\<lparr>needsUpdate := False\<rparr>) of
        Inl e \<Rightarrow> Inl e
      | Inr s' \<Rightarrow>
          (case entry_passes ticks T s' of
             Inl e \<Rightarrow> Inl e
           | Inr trace \<Rightarrow> Inr (s' # trace)))"

text \<open>
  A pass is an expiry of a loop entry when the channel is enabled, its current entry is
  an \<open>MB_LOOP\<close> entry and the time of that entry has elapsed: the passes in which the
  \<open>MB_LOOP\<close> branch counts.  \<open>LOOP_expiries\<close> lists them for a run of passes, in order,
  each with the scratchpad before and after the pass; a run ends at its last tick or at
  the first pass that does not return.
\<close>

definition is_LOOP_expiry :: "uint32_t \<Rightarrow> sequence_t \<Rightarrow> scratchpad_t \<Rightarrow> bool" where
  "is_LOOP_expiry now T pS =
     (enabled pS \<and>
      (case stateAt T (currentState pS) of
         Inl e \<Rightarrow> False
       | Inr sd \<Rightarrow> stateID sd = MB_LOOP \<and> activeTime sd \<le> now - lastWakeup pS))"

fun LOOP_expiries ::
  "(uint32_t \<times> bool \<times> uint32_t) list \<Rightarrow> sequence_t \<Rightarrow> scratchpad_t \<times> led_output
     \<Rightarrow> (scratchpad_t \<times> scratchpad_t) list" where
  "LOOP_expiries [] T s = []"
| "LOOP_expiries ((now, new_ok, ms) # ticks) T (pS, out) =
     (case MultiBlink_entry now new_ok ms T (pS, out\<lparr>needsUpdate := False\<rparr>) of
        Inl e \<Rightarrow> []
      | Inr (pS', out') \<Rightarrow>
          (if is_LOOP_expiry now T pS then [(pS, pS')] else [])
            @ LOOP_expiries ticks T (pS', out'))"

text \<open>
  Successive calls of \<open>getNext\<close> on one fade object: each call is the pair
  \<open>(nowTime, ms)\<close>; the result lists what the calls returned.
\<close>

fun getNext_calls :: "(uint32_t \<times> uint32_t) list \<Rightarrow> cNeoFade \<Rightarrow> bool list \<times> cNeoFade" where
  "getNext_calls [] this = ([], this)"
| "getNext_calls ((nowTime, ms) # calls) this =
     (case getNext nowTime ms this of
        (ok, rgb, this') \<Rightarrow>
          (case getNext_calls calls this' of
             (oks, this'') \<Rightarrow> (ok # oks, this'')))"

section \<open>Start-up state and tables of the sketch\<close>

text \<open>
  \<open>LEDInit\<close> sets every LED to \<open>CRGB::Black\<close> and raises \<open>needsUpdate\<close>, whatever the
  globals held before.  The global scratchpad arrays start zero-initialized, which is
  \<open>S_zero\<close> in every element, and \<open>InitTables\<close> runs \<open>BlinkInit\<close> over them.
  \<open>Black\<close>, \<open>Red\<close>, \<open>Blue\<close> and \<open>SeaGreen\<close> are the color codes that FastLED gives
  these names.  \<open>T1_0\<close> is the first entry of the table \<open>T1\<close> and \<open>T2_2\<close> the third
  entry of \<open>T2\<close>.
\<close>

definition Black :: uint32_t where "Black = 0x000000"
definition Red :: uint32_t where "Red = 0xFF0000"
definition Blue :: uint32_t where "Blue = 0x0000FF"
definition SeaGreen :: uint32_t where "SeaGreen = 0x2E8B57"

definition LEDInit :: led_output where
  "LEDInit = \<lparr>leds = replicate NUM_LEDS (CRGB_colorcode Black), needsUpdate = True\<rparr>"

definition S_zero :: scratchpad_t where
  "S_zero = \<lparr>enabled = False, currentState = 0, lastWakeup = 0, nf = None, counter = 0\<rparr>"

definition T1_0 :: sequence_t where
  "T1_0 = \<lparr>ledId = 0,
            state = [SET 100 Blue, SET 50 Red, DO 0 0 4, SET 600 Black, NOP]\<rparr>"

definition T2_2 :: sequence_t where
  "T2_2 = \<lparr>ledId = 3,
            state = [FADE 2048 Black SeaGreen, FADE 2048 SeaGreen Black, DO 1000 0 4,
                     STOP, NOP]\<rparr>"

section \<open>The fade object: construction\<close>

lemmas state_t_defs = MB_NULL_def MB_SET_def MB_FADE_def MB_LOOP_def MB_GOTO_def MB_STOP_def

lemma uiabs_self: "uiabs a a = 0"
  by (simp add: uiabs_def)

lemma max3_zero: "max3 0 0 0 = 0"
  by (simp add: max3_def)

lemma setFade_same_color: "setFade period c c = Inl DivisionByZero"
  by (simp add: setFade_def uiabs_self max3_zero)

lemma setFade_Inr:
  assumes "setFade period c0 c1 = Inr f"
  shows "nf_steps f = max3 (uiabs (ucast (red c1)) (ucast (red c0)))
                           (uiabs (ucast (green c1)) (ucast (green c0)))
                           (uiabs (ucast (blue c1)) (ucast (blue c0)))"
    and "\<not> nf_ended f" and "nf_steps f \<noteq> 0" and "nf_timeStart f = 0"
    and "nf_timeInterval f =
           (if (ucast (period div nf_steps f) :: uint32_t) = 0 then 1
            else ucast (period div nf_steps f))"
  using assms by (auto simp add: setFade_def Let_def split: if_splits)

text \<open>
  Claim C2.  The claim: constructing a fade between two equal colors (so that the step
  count is 0) is well defined, the division \<open>period / steps\<close> does not divide by zero,
  and the fade completes at once.  The code: \<open>setFade\<close> divides \<open>period\<close> by \<open>_steps\<close>
  with no check, so for two equal colors it divides by zero.  The theorem evaluates the
  construction for a fade of 500 ms from red to red, and the interpreter pass that
  reaches it: a FADE entry that has not expired and has no fade object yet.
\<close>

theorem C2_setFade_equal_colors_divides_by_zero:
  "setFade 500 (CRGB_colorcode 0xFF0000) (CRGB_colorcode 0xFF0000) = Inl DivisionByZero
   \<and> MultiBlink_entry 0 True 0
       \<lparr>ledId = 0, state = [FADE 500 0xFF0000 0xFF0000, NOP, NOP, NOP, NOP]\<rparr>
       (\<lparr>enabled = True, currentState = 0, lastWakeup = 0, nf = None, counter = 0\<rparr>,
        \<lparr>leds = replicate 8 (CRGB_colorcode 0), needsUpdate = False\<rparr>)
     = Inl DivisionByZero"
  by (simp add: MultiBlink_entry_def stateAt_def MAX_STATE_def FADE_def switch_stateID_def
      state_t_defs case_MB_FADE_def setFade_same_color)

section \<open>The fade object: steps\<close>

lemma unat_ucast_8_16: "unat (ucast (a :: uint8_t) :: uint16_t) = unat a"
proof -
  have "unat a < 2 ^ 8" using unsigned_less [of a] by simp
  then have "unat a < 2 ^ 16" by simp
  then show ?thesis by (simp add: unsigned_ucast_eq take_bit_nat_eq_self)
qed

lemma nat_abs_diff: "(if n < m then m - n else n - m) = nat \<bar>int m - int n\<bar>" for m n :: nat
  by force

lemma unat_uiabs_ucast:
  "unat (uiabs (ucast (a :: uint8_t)) (ucast (b :: uint8_t))) = nat \<bar>uint a - uint b\<bar>"
proof -
  have "unat (uiabs (ucast a) (ucast b))
          = (if unat b < unat a then unat a - unat b else unat b - unat a)"
    by (auto simp add: uiabs_def word_less_nat_alt unat_sub word_le_nat_alt unat_ucast_8_16)
  also have "\<dots> = nat \<bar>int (unat a) - int (unat b)\<bar>"
    by (rule nat_abs_diff)
  finally show ?thesis by simp
qed

lemma unat_max3: "unat (max3 x y z) = max (max (unat x) (unat y)) (unat z)"
  by (auto simp add: max3_def word_less_nat_alt)

lemma getNext_count:
  assumes "getNext nowTime ms f = (ok, rgb, f')" and "nf_ended f \<longrightarrow> nf_steps f = 0"
  shows "(if ok then 1 else 0) + unat (nf_steps f') = unat (nf_steps f)"
    and "nf_ended f' \<longrightarrow> nf_steps f' = 0"
  using assms
  by (auto simp add: getNext_def Let_def unat_minus_one unat_gt_0 split: if_splits)

lemma getNext_calls_count:
  assumes "getNext_calls calls f = (oks, f')" and "nf_ended f \<longrightarrow> nf_steps f = 0"
  shows "length (filter id oks) + unat (nf_steps f') = unat (nf_steps f)
         \<and> (nf_ended f' \<longrightarrow> nf_steps f' = 0)"
  using assms
proof (induction calls arbitrary: f oks f')
  case Nil
  then show ?case by simp
next
  case (Cons c calls)
  obtain nowTime ms where c: "c = (nowTime, ms)" by (cases c)
  obtain ok rgb f1 where g: "getNext nowTime ms f = (ok, rgb, f1)" by (cases "getNext nowTime ms f")
  obtain oks1 f2 where r: "getNext_calls calls f1 = (oks1, f2)" by (cases "getNext_calls calls f1")
  from Cons.prems(1) c g r have eq: "oks = ok # oks1" "f' = f2" by simp_all
  note one = getNext_count [OF g Cons.prems(2)]
  from Cons.IH [OF r one(2)] one(1) eq show ?case by (simp split: if_splits)
qed

lemma getNext_due:
  assumes "nf_timeInterval f \<le> nowTime - nf_timeStart f"
  shows "fst (getNext nowTime ms f) = (nf_steps f \<noteq> 0)"
    and "nf_ended (snd (snd (getNext nowTime ms f))) = (nf_steps f = 0)"
  using assms by (auto simp add: getNext_def Let_def)


text \<open>
  Claim C8.  A fade object that \<open>setFade\<close> has built for the colors \<open>c0\<close> and \<open>c1\<close>
  returns a color (\<open>getNext\<close> returns true) at most \<open>max(|dr|, |dg|, |db|)\<close> times,
  whatever the times of the calls are; once it has signalled the end it has returned
  exactly that many; and a call made when the step interval has elapsed returns a color
  as long as fewer than that many were returned, and signals the end exactly when that
  many were.
\<close>

theorem C8_fade_step_count:
  assumes "setFade period c0 c1 = Inr f" and "getNext_calls calls f = (oks, f')"
  defines "dmax \<equiv> max (max (nat \<bar>uint (red c1) - uint (red c0)\<bar>)
                            (nat \<bar>uint (green c1) - uint (green c0)\<bar>))
                       (nat \<bar>uint (blue c1) - uint (blue c0)\<bar>)"
  shows "length (filter id oks) \<le> dmax
       \<and> (isEnded f' \<longrightarrow> length (filter id oks) = dmax)
       \<and> (\<forall>nowTime ms. nf_timeInterval f' \<le> nowTime - nf_timeStart f' \<longrightarrow>
             (fst (getNext nowTime ms f') \<longleftrightarrow> length (filter id oks) < dmax)
           \<and> (isEnded (snd (snd (getNext nowTime ms f'))) \<longleftrightarrow> length (filter id oks) = dmax))"
proof -
  have steps: "unat (nf_steps f) = dmax"
    unfolding dmax_def setFade_Inr(1) [OF assms(1)] by (simp add: unat_max3 unat_uiabs_ucast)
  have inv: "nf_ended f \<longrightarrow> nf_steps f = 0"
    using setFade_Inr(2) [OF assms(1)] by simp
  from getNext_calls_count [OF assms(2) inv] steps
  have cnt: "length (filter id oks) + unat (nf_steps f') = dmax"
    and fin: "nf_ended f' \<longrightarrow> nf_steps f' = 0" by simp_all
  have z: "nf_steps f' = 0 \<longleftrightarrow> length (filter id oks) = dmax"
    using cnt by (auto simp add: unat_eq_0)
  show ?thesis
    using cnt fin z by (auto simp add: isEnded_def getNext_due)
qed

theorem C8_fade_step_count_witness:
  "setFade 10 (CRGB_colorcode 0) (CRGB_colorcode 2)
     = Inr \<lparr>nf_r0 = 0, nf_g0 = 0, nf_b0 = 0, nf_r1 = 1, nf_g1 = 1, nf_b1 = 1,
         nf_steps = 2, nf_dR = 0, nf_dG = 0, nf_dB = 2, nf_dMax = 2,
         nf_sR = - 1, nf_sG = - 1, nf_sB = 1, nf_ended = False,
         nf_timeStart = 0, nf_timeInterval = 5\<rparr>
   \<and> getNext_calls [(5, 5), (7, 7), (10, 10)]
        \<lparr>nf_r0 = 0, nf_g0 = 0, nf_b0 = 0, nf_r1 = 1, nf_g1 = 1, nf_b1 = 1,
         nf_steps = 2, nf_dR = 0, nf_dG = 0, nf_dB = 2, nf_dMax = 2,
         nf_sR = - 1, nf_sG = - 1, nf_sB = 1, nf_ended = False,
         nf_timeStart = 0, nf_timeInterval = 5\<rparr>
     = ([True, False, True],
        \<lparr>nf_r0 = 0, nf_g0 = 0, nf_b0 = 2, nf_r1 = 1, nf_g1 = 1, nf_b1 = 1,
         nf_steps = 0, nf_dR = 0, nf_dG = 0, nf_dB = 2, nf_dMax = 2,
         nf_sR = - 1, nf_sG = - 1, nf_sB = 1, nf_ended = False,
         nf_timeStart = 10, nf_timeInterval = 5\<rparr>)
   \<and> length (filter id [True, False, True]) \<le> 2
   \<and> \<not> fst (getNext 15 15
        \<lparr>nf_r0 = 0, nf_g0 = 0, nf_b0 = 2, nf_r1 = 1, nf_g1 = 1, nf_b1 = 1,
         nf_steps = 0, nf_dR = 0, nf_dG = 0, nf_dB = 2, nf_dMax = 2,
         nf_sR = - 1, nf_sG = - 1, nf_sB = 1, nf_ended = False,
         nf_timeStart = 10, nf_timeInterval = 5\<rparr>)
   \<and> isEnded (snd (snd (getNext 15 15
        \<lparr>nf_r0 = 0, nf_g0 = 0, nf_b0 = 2, nf_r1 = 1, nf_g1 = 1, nf_b1 = 1,
         nf_steps = 0, nf_dR = 0, nf_dG = 0, nf_dB = 2, nf_dMax = 2,
         nf_sR = - 1, nf_sG = - 1, nf_sB = 1, nf_ended = False,
         nf_timeStart = 10, nf_timeInterval = 5\<rparr>)))"
proof -
  have h1: "setFade 10 (CRGB_colorcode 0) (CRGB_colorcode 2)
     = Inr \<lparr>nf_r0 = 0, nf_g0 = 0, nf_b0 = 0, nf_r1 = 1, nf_g1 = 1, nf_b1 = 1,
         nf_steps = 2, nf_dR = 0, nf_dG = 0, nf_dB = 2, nf_dMax = 2,
         nf_sR = - 1, nf_sG = - 1, nf_sB = 1, nf_ended = False,
         nf_timeStart = 0, nf_timeInterval = 5\<rparr>"
    by code_simp
  have h2: "getNext_calls [(5, 5), (7, 7), (10, 10)]
        \<lparr>nf_r0 = 0, nf_g0 = 0, nf_b0 = 0, nf_r1 = 1, nf_g1 = 1, nf_b1 = 1,
         nf_steps = 2, nf_dR = 0, nf_dG = 0, nf_dB = 2, nf_dMax = 2,
         nf_sR = - 1, nf_sG = - 1, nf_sB = 1, nf_ended = False,
         nf_timeStart = 0, nf_timeInterval = 5\<rparr>
     = ([True, False, True],
        \<lparr>nf_r0 = 0, nf_g0 = 0, nf_b0 = 2, nf_r1 = 1, nf_g1 = 1, nf_b1 = 1,
         nf_steps = 0, nf_dR = 0, nf_dG = 0, nf_dB = 2, nf_dMax = 2,
         nf_sR = - 1, nf_sG = - 1, nf_sB = 1, nf_ended = False,
         nf_timeStart = 10, nf_timeInterval = 5\<rparr>)"
    by code_simp
  have d: "max (max (nat \<bar>uint (red (CRGB_colorcode 2)) - uint (red (CRGB_colorcode 0))\<bar>)
                    (nat \<bar>uint (green (CRGB_colorcode 2)) - uint (green (CRGB_colorcode 0))\<bar>))
               (nat \<bar>uint (blue (CRGB_colorcode 2)) - uint (blue (CRGB_colorcode 0))\<bar>) = 2"
    by (simp add: CRGB_colorcode_def)
  note c = C8_fade_step_count [OF h1 h2, unfolded d]
  have a: "length (filter id [True, False, True]) \<le> 2"
    using c by simp
  have b: "\<not> fst (getNext 15 15
        \<lparr>nf_r0 = 0, nf_g0 = 0, nf_b0 = 2, nf_r1 = 1, nf_g1 = 1, nf_b1 = 1,
         nf_steps = 0, nf_dR = 0, nf_dG = 0, nf_dB = 2, nf_dMax = 2,
         nf_sR = - 1, nf_sG = - 1, nf_sB = 1, nf_ended = False,
         nf_timeStart = 10, nf_timeInterval = 5\<rparr>)
   \<and> isEnded (snd (snd (getNext 15 15
        \<lparr>nf_r0 = 0, nf_g0 = 0, nf_b0 = 2, nf_r1 = 1, nf_g1 = 1, nf_b1 = 1,
         nf_steps = 0, nf_dR = 0, nf_dG = 0, nf_dB = 2, nf_dMax = 2,
         nf_sR = - 1, nf_sG = - 1, nf_sB = 1, nf_ended = False,
         nf_timeStart = 10, nf_timeInterval = 5\<rparr>)))"
    using c [THEN conjunct2, THEN conjunct2, THEN spec, THEN spec, of 15 15] by simp
  from h1 h2 a b show ?thesis by blast
qed

section \<open>The state transition\<close>

text \<open>
  The arithmetic of the transition: \<open>pS->currentState + 1\<close> as an \<open>int16_t\<close>, and its
  remainder modulo \<open>MAX_STATE\<close> stored into a \<open>uint8_t\<close>.
\<close>

lemma sint_small: "uint (w :: int16_t) < 32768 \<Longrightarrow> sint w = uint w"
proof -
  assume "uint w < 32768"
  then have hi: "uint w < 2 ^ 15" by simp
  have lo: "- (2 ^ 15) \<le> uint w" by (rule order_trans [OF _ uint_nonnegative]) simp
  from lo hi have "signed_take_bit 15 (uint w) = uint w"
    by (rule signed_take_bit_int_eq_self)
  then show ?thesis by (simp add: sint_uint)
qed

lemma unat_lt_256: "unat (cs :: uint8_t) < 256"
  using unsigned_less [of cs] by simp

lemma unat_ucast_Suc: "unat (ucast (cs :: uint8_t) + 1 :: int16_t) = unat cs + 1"
proof -
  have "unat (ucast cs :: int16_t) + unat (1 :: int16_t) < 2 ^ LENGTH(16)"
    using unat_lt_256 [of cs] by (simp add: unat_ucast_8_16)
  then have "unat (ucast cs + 1 :: int16_t) = unat (ucast cs :: int16_t) + unat (1 :: int16_t)"
    by (rule unat_add_lem [THEN iffD1])
  then show ?thesis by (simp add: unat_ucast_8_16)
qed

lemma uint_ucast_Suc: "uint (ucast (cs :: uint8_t) + 1 :: int16_t) = uint cs + 1"
proof -
  have "int (unat (ucast cs + 1 :: int16_t)) = int (unat cs + 1)"
    by (simp only: unat_ucast_Suc)
  then show ?thesis by simp
qed

lemma uint_lt_256: "uint (cs :: uint8_t) < 256"
  using unsigned_less [of cs, where ?'a = int] by simp

lemma sint_ucast_Suc: "sint (ucast (cs :: uint8_t) + 1 :: int16_t) = uint cs + 1"
proof -
  have "uint (ucast cs + 1 :: int16_t) < 32768"
    using uint_lt_256 [of cs] by (simp add: uint_ucast_Suc)
  then have "sint (ucast cs + 1 :: int16_t) = uint (ucast cs + 1 :: int16_t)"
    by (rule sint_small)
  then show ?thesis by (simp add: uint_ucast_Suc)
qed

lemma ucast_Suc_neq_minus1: "(ucast (cs :: uint8_t) + 1 :: int16_t) \<noteq> - 1"
proof
  assume "(ucast cs + 1 :: int16_t) = - 1"
  then have "sint (ucast cs + 1 :: int16_t) = sint (- 1 :: int16_t)" by (rule arg_cong)
  then have "uint cs + 1 = - 1" by (simp only: sint_ucast_Suc sint_n1)
  then show False using uint_nonnegative [of cs] by simp
qed

lemma smod_nonneg: "0 \<le> k \<Longrightarrow> 0 < l \<Longrightarrow> k smod l = k mod l" for k l :: int
  by (simp add: signed_modulo_int_def sgn_if)

lemma next_sequential_5:
  "(word_of_int (sint (ucast (cs :: uint8_t) + 1 :: int16_t) smod 5) :: uint8_t)
     = of_nat ((unat cs + 1) mod 5)"
proof -
  have "(uint cs + 1) smod 5 = (uint cs + 1) mod 5"
    using uint_nonnegative [of cs] by (intro smod_nonneg) simp_all
  also have "\<dots> = int ((unat cs + 1) mod 5)"
    by (simp add: zmod_int) (simp add: ac_simps)
  finally show ?thesis by (simp only: sint_ucast_Suc of_int_of_nat_eq)
qed

lemma unat_small_8: "n < 256 \<Longrightarrow> unat (of_nat n :: uint8_t) = n"
  by (simp add: unat_of_nat take_bit_nat_eq_self)

lemma unat_next_sequential_5:
  "unat (of_nat ((unat (cs :: uint8_t) + 1) mod 5) :: uint8_t) = (unat cs + 1) mod 5"
proof -
  have "(unat cs + 1) mod 5 < 5" by simp
  then have "(unat cs + 1) mod 5 < 256" by linarith
  then show ?thesis by (rule unat_small_8)
qed

lemma next_valid_target_5:
  assumes "unat (j :: uint32_t) < 5"
  shows "(ucast j :: int16_t) \<noteq> - 1"
    and "(word_of_int (sint (ucast j :: int16_t) smod 5) :: uint8_t) = ucast j"
proof -
  have "unat j < 2 ^ 16" using assms by simp
  then have u: "unat (ucast j :: int16_t) = unat j"
    by (simp add: unsigned_ucast_eq take_bit_nat_eq_self)
  have ui: "uint (ucast j :: int16_t) = uint j"
  proof -
    have "int (unat (ucast j :: int16_t)) = int (unat j)" by (simp only: u)
    then show ?thesis by simp
  qed
  have lt: "uint j < 5"
  proof -
    have "int (unat j) < int 5" using assms by (simp only: of_nat_less_iff)
    then show ?thesis by simp
  qed
  have s: "sint (ucast j :: int16_t) = uint j"
    using lt by (simp add: sint_small ui)
  show "(ucast j :: int16_t) \<noteq> - 1"
  proof
    assume "(ucast j :: int16_t) = - 1"
    then have "sint (ucast j :: int16_t) = sint (- 1 :: int16_t)" by (rule arg_cong)
    then have "uint j = - 1" by (simp only: s sint_n1)
    then show False using uint_nonnegative [of j] by simp
  qed
  have "uint j smod 5 = uint j mod 5"
    using uint_nonnegative [of j] by (intro smod_nonneg) simp_all
  also have "\<dots> = uint j" using lt uint_nonnegative [of j] by simp
  finally have "(word_of_int (sint (ucast j :: int16_t) smod 5) :: uint8_t) = word_of_int (uint j)"
    by (simp only: s)
  also have "\<dots> = ucast j" by (rule ucast_eq [symmetric])
  finally show "(word_of_int (sint (ucast j :: int16_t) smod 5) :: uint8_t) = ucast j" .
qed

lemma next_sequential:
  "(word_of_int (sint (ucast (cs :: uint8_t) + 1 :: int16_t) smod int MAX_STATE) :: uint8_t)
     = of_nat ((unat cs + 1) mod MAX_STATE)"
  using next_sequential_5 [of cs] by (simp add: MAX_STATE_def)

lemma unat_next_sequential:
  "unat (of_nat ((unat (cs :: uint8_t) + 1) mod MAX_STATE) :: uint8_t) = (unat cs + 1) mod MAX_STATE"
  using unat_next_sequential_5 [of cs] by (simp add: MAX_STATE_def)

lemma next_valid_target:
  assumes "unat (j :: uint32_t) < MAX_STATE"
  shows "(ucast j :: int16_t) \<noteq> - 1"
    and "(word_of_int (sint (ucast j :: int16_t) smod int MAX_STATE) :: uint8_t) = ucast j"
  using assms next_valid_target_5 [of j] by (simp_all add: MAX_STATE_def)

text \<open>
  Claim C3.  The claim: after any transition \<open>currentState\<close> is below \<open>MAX_STATE\<close>,
  for every jump target, and the wake-up time has moved on by the active time.  The
  code: the jump target \<open>data1\<close> is stored into the \<open>int16_t\<close> local \<open>nextState\<close>, so a
  target whose low 16 bits have the top bit set is negative there; \<open>%\<close> then gives a
  negative remainder, and the \<open>uint8_t\<close> \<open>currentState\<close> receives it modulo 256.  The
  theorem evaluates \<open>GOTO(0, 65534)\<close>: \<open>nextState\<close> is \<open>- 2\<close>, the remainder is \<open>- 2\<close> and
  \<open>currentState\<close> becomes 254.
\<close>

theorem C3_GOTO_65534_leaves_range:
  "MultiBlink_entry 0 True 0 \<lparr>ledId = 0, state = [GOTO 0 65534, NOP, NOP, NOP, NOP]\<rparr>
     (\<lparr>enabled = True, currentState = 0, lastWakeup = 0, nf = None, counter = 0\<rparr>,
      \<lparr>leds = replicate 8 (CRGB_colorcode 0), needsUpdate = False\<rparr>)
   = Inr (\<lparr>enabled = True, currentState = 254, lastWakeup = 0, nf = None, counter = 0\<rparr>,
          \<lparr>leds = replicate 8 (CRGB_colorcode 0), needsUpdate = False\<rparr>)
   \<and> \<not> unat (254 :: uint8_t) < MAX_STATE"
  by (simp add: MultiBlink_entry_def stateAt_def MAX_STATE_def GOTO_def switch_stateID_def
      state_t_defs case_MB_GOTO_def setNext_def signed_modulo_int_def)

section \<open>One pass over one entry\<close>

lemma stateAt_Inr: "stateAt T cs = Inr sd \<Longrightarrow> unat cs < MAX_STATE"
  by (simp add: stateAt_def split: if_splits)

lemma MultiBlink_entry_enabled:
  assumes "enabled pS" and "stateAt T (currentState pS) = Inr sd"
  shows "MultiBlink_entry now new_ok ms T (pS, out) =
           (case switch_stateID now new_ok ms T sd (activeTime sd \<le> now - lastWakeup pS) pS out of
              Inl e \<Rightarrow> Inl e
            | Inr res \<Rightarrow> Inr (setNext sd res))"
  using assms by (simp add: MultiBlink_entry_def)

lemma MultiBlink_entry_disabled:
  "\<not> enabled pS \<Longrightarrow> MultiBlink_entry now new_ok ms T (pS, out) = Inr (pS, out)"
  by (simp add: MultiBlink_entry_def)

lemma setNext_sequential:
  "setNext sd (pS, out, True, ns) =
     (pS\<lparr>lastWakeup := lastWakeup pS + activeTime sd,
         currentState := of_nat ((unat (currentState pS) + 1) mod MAX_STATE)\<rparr>, out)"
  by (simp add: setNext_def ucast_Suc_neq_minus1 next_sequential)

lemma setNext_stay: "setNext sd (pS, out, False, - 1) = (pS, out)"
  by (simp add: setNext_def)

lemma setNext_jump:
  "ns \<noteq> - 1 \<Longrightarrow> setNext sd (pS, out, False, ns) =
     (pS\<lparr>lastWakeup := lastWakeup pS + activeTime sd,
         currentState := word_of_int (sint ns smod int MAX_STATE)\<rparr>, out)"
  by (simp add: setNext_def)

lemma setNext_valid_target:
  "unat (j :: uint32_t) < MAX_STATE \<Longrightarrow> setNext sd (pS, out, False, ucast j) =
     (pS\<lparr>lastWakeup := lastWakeup pS + activeTime sd, currentState := ucast j\<rparr>, out)"
  by (simp add: setNext_jump next_valid_target)

lemma leds_setLed:
  "unat (ledId T) < NUM_LEDS \<Longrightarrow> length (leds out) = NUM_LEDS
     \<Longrightarrow> leds (setLed T c out) ! unat (ledId T) = c"
  by (simp add: setLed_def)

lemma leds_LEDInit: "leds LEDInit = replicate 8 \<lparr>red = 0, green = 0, blue = 0\<rparr>"
  by (simp add: LEDInit_def NUM_LEDS_def CRGB_colorcode_def Black_def)

text \<open>
  A jump target that is not negative as an \<open>int16_t\<close> (bit 15 of \<open>data1\<close> clear) does lead
  into the table: the transition leaves \<open>currentState\<close> below \<open>MAX_STATE\<close> and moves the
  wake-up time on by the active time.
\<close>

lemma setNext_in_range:
  assumes "0 \<le> sint ns" and "setNext sd (pS, out, False, ns) = (pS', out')"
  shows "unat (currentState pS') < MAX_STATE"
    and "lastWakeup pS' = lastWakeup pS + activeTime sd"
proof -
  have ne: "ns \<noteq> - 1" using assms(1) by auto
  have m: "sint ns smod int MAX_STATE = sint ns mod 5"
    using assms(1) by (simp add: smod_nonneg MAX_STATE_def)
  have nn: "0 \<le> sint ns mod 5" and lt: "sint ns mod 5 < 5" by simp_all
  from nn have "(word_of_int (sint ns mod 5) :: uint8_t) = of_nat (nat (sint ns mod 5))"
    by (rule word_of_int_nat)
  moreover have "nat (sint ns mod 5) < 256" using lt by linarith
  ultimately have "unat (word_of_int (sint ns mod 5) :: uint8_t) = nat (sint ns mod 5)"
    by (simp only: unat_small_8)
  with lt have "unat (word_of_int (sint ns mod 5) :: uint8_t) < 5" by linarith
  with assms(2) m show "unat (currentState pS') < MAX_STATE"
    by (auto simp add: setNext_jump [OF ne] MAX_STATE_def)
  from assms(2) show "lastWakeup pS' = lastWakeup pS + activeTime sd"
    by (auto simp add: setNext_jump [OF ne])
qed

section \<open>MB_FADE\<close>

text \<open>
  Claim C1.  For a FADE entry with duration \<open>t\<close> from \<open>c0\<close> to \<open>c1\<close>, on an enabled channel
  whose LED is one of the \<open>NUM_LEDS\<close>: in a pass where the elapsed time has reached \<open>t\<close>
  the fade object is deleted, the LED is exactly the color of \<open>c1\<close>, and the channel moves
  to the next state with the wake-up time moved on by \<open>t\<close>.  In a pass where the elapsed
  time is below \<open>t\<close> the channel does not move (the only way for the pass not to return
  is the division by zero of \<open>setFade\<close> for two equal colors), and when the fade object
  has signalled its end the pass changes nothing at all.
\<close>

theorem C1_FADE_boundary:
  assumes "enabled pS" and "stateAt T (currentState pS) = Inr (FADE t c0 c1)"
    and "unat (ledId T) < NUM_LEDS" and "length (leds out) = NUM_LEDS"
  shows "(t \<le> now - lastWakeup pS \<longrightarrow>
            MultiBlink_entry now new_ok ms T (pS, out)
              = Inr (pS\<lparr>nf := None, lastWakeup := lastWakeup pS + t,
                        currentState := of_nat ((unat (currentState pS) + 1) mod MAX_STATE)\<rparr>,
                     setLed T (CRGB_colorcode c1) out)
          \<and> leds (setLed T (CRGB_colorcode c1) out) ! unat (ledId T) = CRGB_colorcode c1)
       \<and> (now - lastWakeup pS < t \<longrightarrow>
            (case MultiBlink_entry now new_ok ms T (pS, out) of
               Inr (pS', out') \<Rightarrow>
                 currentState pS' = currentState pS \<and> lastWakeup pS' = lastWakeup pS
                   \<and> enabled pS'
             | Inl e \<Rightarrow>
                 e = DivisionByZero \<and> nf pS = None \<and> new_ok
                   \<and> setFade (ucast t) (CRGB_colorcode c0) (CRGB_colorcode c1) = Inl DivisionByZero)
          \<and> (\<forall>f. nf pS = Some f \<and> isEnded f \<longrightarrow>
                 MultiBlink_entry now new_ok ms T (pS, out) = Inr (pS, out)))"
proof (intro conjI impI allI)
  assume "t \<le> now - lastWakeup pS"
  then show "MultiBlink_entry now new_ok ms T (pS, out)
              = Inr (pS\<lparr>nf := None, lastWakeup := lastWakeup pS + t,
                        currentState := of_nat ((unat (currentState pS) + 1) mod MAX_STATE)\<rparr>,
                     setLed T (CRGB_colorcode c1) out)"
    using assms(3)
    by (simp add: MultiBlink_entry_enabled [OF assms(1,2)] switch_stateID_def FADE_def
        state_t_defs case_MB_FADE_def setNext_sequential)
next
  show "leds (setLed T (CRGB_colorcode c1) out) ! unat (ledId T) = CRGB_colorcode c1"
    using assms(3,4) by (rule leds_setLed)
next
  assume "now - lastWakeup pS < t"
  then have ne: "\<not> t \<le> now - lastWakeup pS" by simp
  show "case MultiBlink_entry now new_ok ms T (pS, out) of
               Inr (pS', out') \<Rightarrow>
                 currentState pS' = currentState pS \<and> lastWakeup pS' = lastWakeup pS
                   \<and> enabled pS'
             | Inl e \<Rightarrow>
                 e = DivisionByZero \<and> nf pS = None \<and> new_ok
                   \<and> setFade (ucast t) (CRGB_colorcode c0) (CRGB_colorcode c1) = Inl DivisionByZero"
    using ne assms(1,3)
    by (auto simp add: MultiBlink_entry_enabled [OF assms(1,2)] switch_stateID_def FADE_def
        state_t_defs case_MB_FADE_def setNext_stay setFade_def Let_def
        split: option.splits sum.splits prod.splits bool.splits if_splits)
next
  fix f
  assume "now - lastWakeup pS < t" and f: "nf pS = Some f \<and> isEnded f"
  then have "\<not> t \<le> now - lastWakeup pS" by simp
  with f show "MultiBlink_entry now new_ok ms T (pS, out) = Inr (pS, out)"
    by (simp add: MultiBlink_entry_enabled [OF assms(1,2)] switch_stateID_def FADE_def
        state_t_defs case_MB_FADE_def setNext_stay)
qed

theorem C1_FADE_boundary_witness:
  "enabled (resetScratchpad 0 S_zero)
   \<and> stateAt T2_2 (currentState (resetScratchpad 0 S_zero)) = Inr (FADE 2048 Black SeaGreen)
   \<and> unat (ledId T2_2) < NUM_LEDS
   \<and> length (leds LEDInit) = NUM_LEDS
   \<and> MultiBlink_entry 2048 True 2048 T2_2 (resetScratchpad 0 S_zero, LEDInit)
       = Inr (\<lparr>enabled = True, currentState = 1, lastWakeup = 2048, nf = None, counter = 0\<rparr>,
              setLed T2_2 (CRGB_colorcode SeaGreen) LEDInit)
   \<and> leds (setLed T2_2 (CRGB_colorcode SeaGreen) LEDInit) ! 3
       = \<lparr>red = 0x2E, green = 0x8B, blue = 0x57\<rparr>
   \<and> (case MultiBlink_entry 2047 True 2047 T2_2 (resetScratchpad 0 S_zero, LEDInit) of
         Inr (pS', out') \<Rightarrow> currentState pS' = 0 \<and> lastWakeup pS' = 0 \<and> enabled pS'
       | Inl e \<Rightarrow> False)"
proof -
  have h1: "enabled (resetScratchpad 0 S_zero)"
    by (simp add: resetScratchpad_def)
  have h2: "stateAt T2_2 (currentState (resetScratchpad 0 S_zero)) = Inr (FADE 2048 Black SeaGreen)"
    by (simp add: resetScratchpad_def stateAt_def T2_2_def MAX_STATE_def)
  have h3: "unat (ledId T2_2) < NUM_LEDS"
    by (simp add: T2_2_def NUM_LEDS_def)
  have h4: "length (leds LEDInit) = NUM_LEDS"
    by (simp add: LEDInit_def)
  note th = C1_FADE_boundary [OF h1 h2 h3 h4]
  have a: "MultiBlink_entry 2048 True 2048 T2_2 (resetScratchpad 0 S_zero, LEDInit)
       = Inr (\<lparr>enabled = True, currentState = 1, lastWakeup = 2048, nf = None, counter = 0\<rparr>,
              setLed T2_2 (CRGB_colorcode SeaGreen) LEDInit)"
    using th [where now = 2048 and new_ok = True and ms = 2048]
    by (simp add: resetScratchpad_def S_zero_def MAX_STATE_def)
  have b: "leds (setLed T2_2 (CRGB_colorcode SeaGreen) LEDInit) ! 3
       = \<lparr>red = 0x2E, green = 0x8B, blue = 0x57\<rparr>"
    using th [where now = 2048 and new_ok = True and ms = 2048]
    by (simp add: resetScratchpad_def S_zero_def T2_2_def CRGB_colorcode_def SeaGreen_def)
  have ok: "setFade (ucast (2048 :: uint32_t)) (CRGB_colorcode Black) (CRGB_colorcode SeaGreen)
              \<noteq> Inl DivisionByZero"
    by code_simp
  have c: "case MultiBlink_entry 2047 True 2047 T2_2 (resetScratchpad 0 S_zero, LEDInit) of
         Inr (pS', out') \<Rightarrow> currentState pS' = 0 \<and> lastWakeup pS' = 0 \<and> enabled pS'
       | Inl e \<Rightarrow> False"
    using th [where now = 2047 and new_ok = True and ms = 2047] ok
    by (simp add: resetScratchpad_def S_zero_def split: sum.splits prod.splits)
  from h1 h2 h3 h4 a b c show ?thesis by blast
qed

section \<open>MB_NULL and the default branch\<close>

text \<open>
  Claim C9.  An enabled channel whose entry has a \<open>stateID\<close> that is none of the six
  enumerators is treated as the same entry with \<open>MB_NULL\<close> is: nothing is written to the
  LEDs, and the channel moves to the next state in sequence in that pass (with the
  wake-up time moved on by the active time, as in every transition).
\<close>

theorem C9_unknown_opcode_as_NULL:
  assumes "enabled pS" and "stateAt T (currentState pS) = Inr sd"
    and "stateID sd \<notin> {MB_SET, MB_FADE, MB_LOOP, MB_GOTO, MB_STOP, MB_NULL}"
    and "stateAt T0 (currentState pS) = Inr (sd\<lparr>stateID := MB_NULL\<rparr>)"
  shows "MultiBlink_entry now new_ok ms T (pS, out) = MultiBlink_entry now new_ok ms T0 (pS, out)
       \<and> MultiBlink_entry now new_ok ms T (pS, out)
           = Inr (pS\<lparr>lastWakeup := lastWakeup pS + activeTime sd,
                     currentState := of_nat ((unat (currentState pS) + 1) mod MAX_STATE)\<rparr>, out)"
proof -
  have a: "MultiBlink_entry now new_ok ms T (pS, out)
           = Inr (pS\<lparr>lastWakeup := lastWakeup pS + activeTime sd,
                     currentState := of_nat ((unat (currentState pS) + 1) mod MAX_STATE)\<rparr>, out)"
    using assms(3)
    by (simp add: MultiBlink_entry_enabled [OF assms(1,2)] switch_stateID_def setNext_sequential)
  have b: "MultiBlink_entry now new_ok ms T0 (pS, out)
           = Inr (pS\<lparr>lastWakeup := lastWakeup pS + activeTime sd,
                     currentState := of_nat ((unat (currentState pS) + 1) mod MAX_STATE)\<rparr>, out)"
    by (simp add: MultiBlink_entry_enabled [OF assms(1,4)] switch_stateID_def state_t_defs
        setNext_sequential)
  from a b show ?thesis by simp
qed

theorem C9_unknown_opcode_as_NULL_witness:
  "enabled (resetScratchpad 0 S_zero)
   \<and> stateAt \<lparr>ledId = 0, state = [\<lparr>stateID = 7, activeTime = 50, data1 = 0, data2 = 0\<rparr>]\<rparr>
        (currentState (resetScratchpad 0 S_zero))
       = Inr \<lparr>stateID = 7, activeTime = 50, data1 = 0, data2 = 0\<rparr>
   \<and> (7 :: int) \<notin> {MB_SET, MB_FADE, MB_LOOP, MB_GOTO, MB_STOP, MB_NULL}
   \<and> stateAt \<lparr>ledId = 0, state = [\<lparr>stateID = MB_NULL, activeTime = 50, data1 = 0, data2 = 0\<rparr>]\<rparr>
        (currentState (resetScratchpad 0 S_zero))
       = Inr \<lparr>stateID = MB_NULL, activeTime = 50, data1 = 0, data2 = 0\<rparr>
   \<and> MultiBlink_entry 10 True 10
        \<lparr>ledId = 0, state = [\<lparr>stateID = 7, activeTime = 50, data1 = 0, data2 = 0\<rparr>]\<rparr>
        (resetScratchpad 0 S_zero, LEDInit)
       = MultiBlink_entry 10 True 10
        \<lparr>ledId = 0, state = [\<lparr>stateID = MB_NULL, activeTime = 50, data1 = 0, data2 = 0\<rparr>]\<rparr>
        (resetScratchpad 0 S_zero, LEDInit)
   \<and> MultiBlink_entry 10 True 10
        \<lparr>ledId = 0, state = [\<lparr>stateID = 7, activeTime = 50, data1 = 0, data2 = 0\<rparr>]\<rparr>
        (resetScratchpad 0 S_zero, LEDInit)
       = Inr (\<lparr>enabled = True, currentState = 1, lastWakeup = 50, nf = None, counter = 0\<rparr>,
              LEDInit)"
proof -
  let ?sd = "\<lparr>stateID = 7, activeTime = 50, data1 = 0, data2 = 0\<rparr>"
  have h1: "enabled (resetScratchpad 0 S_zero)"
    by (simp add: resetScratchpad_def)
  have h2: "stateAt \<lparr>ledId = 0, state = [?sd]\<rparr> (currentState (resetScratchpad 0 S_zero)) = Inr ?sd"
    by (simp add: resetScratchpad_def stateAt_def MAX_STATE_def)
  have h3: "stateID ?sd \<notin> {MB_SET, MB_FADE, MB_LOOP, MB_GOTO, MB_STOP, MB_NULL}"
    by (simp add: state_t_defs)
  have h4: "stateAt \<lparr>ledId = 0, state = [\<lparr>stateID = MB_NULL, activeTime = 50, data1 = 0, data2 = 0\<rparr>]\<rparr>
              (currentState (resetScratchpad 0 S_zero)) = Inr (?sd\<lparr>stateID := MB_NULL\<rparr>)"
    by (simp add: resetScratchpad_def stateAt_def MAX_STATE_def)
  note th = C9_unknown_opcode_as_NULL [OF h1 h2 h3 h4, where now = 10 and new_ok = True and ms = 10 and out = LEDInit]
  have a: "MultiBlink_entry 10 True 10 \<lparr>ledId = 0, state = [?sd]\<rparr>
        (resetScratchpad 0 S_zero, LEDInit)
       = MultiBlink_entry 10 True 10
        \<lparr>ledId = 0, state = [\<lparr>stateID = MB_NULL, activeTime = 50, data1 = 0, data2 = 0\<rparr>]\<rparr>
        (resetScratchpad 0 S_zero, LEDInit)"
    using th by (rule conjunct1)
  have b: "MultiBlink_entry 10 True 10 \<lparr>ledId = 0, state = [?sd]\<rparr>
        (resetScratchpad 0 S_zero, LEDInit)
       = Inr (\<lparr>enabled = True, currentState = 1, lastWakeup = 50, nf = None, counter = 0\<rparr>,
              LEDInit)"
    using th [THEN conjunct2] by (simp add: resetScratchpad_def S_zero_def MAX_STATE_def)
  have h3': "(7 :: int) \<notin> {MB_SET, MB_FADE, MB_LOOP, MB_GOTO, MB_STOP, MB_NULL}"
    using h3 by simp
  have h4': "stateAt \<lparr>ledId = 0, state = [\<lparr>stateID = MB_NULL, activeTime = 50, data1 = 0, data2 = 0\<rparr>]\<rparr>
        (currentState (resetScratchpad 0 S_zero))
       = Inr \<lparr>stateID = MB_NULL, activeTime = 50, data1 = 0, data2 = 0\<rparr>"
    using h4 by simp
  from h1 h2 h3' h4' a b show ?thesis by blast
qed

section \<open>MB_LOOP\<close>

lemma LOOP_expired:
  assumes "enabled pS" and "stateAt T (currentState pS) = Inr (DO t j n)"
    and "t \<le> now - lastWakeup pS"
  shows "MultiBlink_entry now new_ok ms T (pS, out) =
           (if ucast (counter pS + 1) < n
            then Inr (setNext (DO t j n) (pS\<lparr>counter := counter pS + 1\<rparr>, out, False, ucast j))
            else Inr (pS\<lparr>counter := 0, lastWakeup := lastWakeup pS + t,
                         currentState := of_nat ((unat (currentState pS) + 1) mod MAX_STATE)\<rparr>, out))"
  using assms(3)
  by (simp add: MultiBlink_entry_enabled [OF assms(1,2)] switch_stateID_def DO_def
      state_t_defs case_MB_LOOP_def setNext_sequential Let_def)

lemma LOOP_waiting:
  assumes "enabled pS" and "stateAt T (currentState pS) = Inr (DO t j n)"
    and "\<not> t \<le> now - lastWakeup pS"
  shows "MultiBlink_entry now new_ok ms T (pS, out) = Inr (pS, out)"
  using assms(3)
  by (simp add: MultiBlink_entry_enabled [OF assms(1,2)] switch_stateID_def DO_def
      state_t_defs case_MB_LOOP_def setNext_stay)

text \<open>
  The loop counter is touched by loop entries only: a pass over any other entry, or over
  a disabled channel, returns it as it was.
\<close>

lemma setNext_counter: "setNext sd (pS, out, b, ns) = (pS', out') \<Longrightarrow> counter pS' = counter pS"
  by (auto simp add: setNext_def Let_def split: if_splits)

lemma case_MB_FADE_counter:
  "case_MB_FADE now new_ok ms T sd x pS out = Inr (pS1, out1, b, ns) \<Longrightarrow> counter pS1 = counter pS"
  by (auto simp add: case_MB_FADE_def split: if_splits option.splits sum.splits prod.splits bool.splits)

lemma counter_unchanged_unless_LOOP:
  assumes "MultiBlink_entry now new_ok ms T (pS, out) = Inr (pS', out')"
    and "stateAt T (currentState pS) = Inr sd" and "stateID sd \<noteq> MB_LOOP"
  shows "counter pS' = counter pS"
proof (cases "enabled pS")
  case False
  with assms(1) show ?thesis by (simp add: MultiBlink_entry_disabled)
next
  case True
  from assms(1) obtain pS1 out1 b ns where
    sw: "switch_stateID now new_ok ms T sd (activeTime sd \<le> now - lastWakeup pS) pS out
           = Inr (pS1, out1, b, ns)"
    and nx: "setNext sd (pS1, out1, b, ns) = (pS', out')"
    by (auto simp add: MultiBlink_entry_enabled [OF True assms(2)] split: sum.splits)
  from sw assms(3) have "counter pS1 = counter pS"
    by (auto simp add: switch_stateID_def case_MB_SET_def case_MB_GOTO_def
        dest: case_MB_FADE_counter split: if_splits)
  with setNext_counter [OF nx] show ?thesis by simp
qed

lemma unat_ucast_16_32: "unat (ucast (x :: uint16_t) :: uint32_t) = unat x"
proof -
  have "unat x < 2 ^ 16" using unsigned_less [of x] by simp
  then have "unat x < 2 ^ 32" by simp
  then show ?thesis by (simp add: unsigned_ucast_eq take_bit_nat_eq_self)
qed


text \<open>
  Claim C4.  The claim is made for every loop entry \<open>DO(delay, target, n)\<close> with
  \<open>n \<ge> 1\<close>.  Three evaluations stand against it.

  First, the loop counter is a \<open>uint16_t\<close> and the repeat count a \<open>uint32_t\<close>: for
  \<open>n = 65536\<close> the counter is 65535 at the 65536th expiry, the increment wraps it to 0,
  and the channel jumps to the target (state 0 here, from the loop entry at index 2)
  where the claim has it fall through to state 3.

  Second, a channel has one loop counter for all its loop entries.  The table
  \<open>[DO(0,0,2), DO(0,0,2), NOP, NOP, NOP]\<close> is run from the reset state for five passes,
  each of which is an expiry of a loop entry.  The third and the fifth are the first and
  the second expiry of the loop at index 1: the second jumps to state 0 as the first did,
  where the claim has it fall through to state 2, because the loop at index 0 has reset
  the counter in between.  The fourth is an expiry of the loop at index 0 that finds the
  counter at 1, left there by the other loop, and falls through at once.

  Third, the target passes through the \<open>int16_t\<close> local \<open>nextState\<close>: 32768 is negative
  there, and the first expiry of \<open>DO(0, 32768, 2)\<close> puts the channel at state 253, which
  is neither 32768 nor \<open>32768 mod MAX_STATE = 3\<close>.
\<close>

theorem C4_LOOP_counterexample:
  "MultiBlink_entry 0 True 0 \<lparr>ledId = 0, state = [NOP, NOP, DO 0 0 65536, NOP, NOP]\<rparr>
     (\<lparr>enabled = True, currentState = 2, lastWakeup = 0, nf = None, counter = 65535\<rparr>, LEDInit)
   = Inr (\<lparr>enabled = True, currentState = 0, lastWakeup = 0, nf = None, counter = 0\<rparr>, LEDInit)
   \<and> LOOP_expiries [(0, True, 0), (0, True, 0), (0, True, 0), (0, True, 0), (0, True, 0)]
       \<lparr>ledId = 0, state = [DO 0 0 2, DO 0 0 2, NOP, NOP, NOP]\<rparr>
       (resetScratchpad 0 S_zero, LEDInit)
     = [(\<lparr>enabled = True, currentState = 0, lastWakeup = 0, nf = None, counter = 0\<rparr>,
         \<lparr>enabled = True, currentState = 0, lastWakeup = 0, nf = None, counter = 1\<rparr>),
        (\<lparr>enabled = True, currentState = 0, lastWakeup = 0, nf = None, counter = 1\<rparr>,
         \<lparr>enabled = True, currentState = 1, lastWakeup = 0, nf = None, counter = 0\<rparr>),
        (\<lparr>enabled = True, currentState = 1, lastWakeup = 0, nf = None, counter = 0\<rparr>,
         \<lparr>enabled = True, currentState = 0, lastWakeup = 0, nf = None, counter = 1\<rparr>),
        (\<lparr>enabled = True, currentState = 0, lastWakeup = 0, nf = None, counter = 1\<rparr>,
         \<lparr>enabled = True, currentState = 1, lastWakeup = 0, nf = None, counter = 0\<rparr>),
        (\<lparr>enabled = True, currentState = 1, lastWakeup = 0, nf = None, counter = 0\<rparr>,
         \<lparr>enabled = True, currentState = 0, lastWakeup = 0, nf = None, counter = 1\<rparr>)]
   \<and> MultiBlink_entry 0 True 0 \<lparr>ledId = 0, state = [NOP, NOP, DO 0 32768 2, NOP, NOP]\<rparr>
       (\<lparr>enabled = True, currentState = 2, lastWakeup = 0, nf = None, counter = 0\<rparr>, LEDInit)
     = Inr (\<lparr>enabled = True, currentState = 253, lastWakeup = 0, nf = None, counter = 1\<rparr>,
            LEDInit)"
  by code_simp

lemma ucast_16_lt_65536: "ucast (x :: uint16_t) < (65536 :: uint32_t)"
proof -
  have "unat x < 2 ^ 16" using unsigned_less [of x] by simp
  then show ?thesis by (simp add: word_less_nat_alt unat_ucast_16_32)
qed

text \<open>
  Indeed, with that table the channel never reaches state 3: started in one of the
  states 0, 1 and 2 (state 0 after a reset), it is in one of them after every pass,
  however many passes are run and whatever the counter was.
\<close>

lemma LOOP_65536_never_falls_through:
  assumes "enabled pS" and "currentState pS \<in> {0, 1, 2}"
  shows "\<exists>trace. entry_passes ticks \<lparr>ledId = 0, state = [NOP, NOP, DO 0 0 65536, NOP, NOP]\<rparr>
                   (pS, out) = Inr trace
         \<and> length trace = length ticks
         \<and> (\<forall>s \<in> set trace. enabled (fst s) \<and> currentState (fst s) \<in> {0, 1, 2})"
  using assms
proof (induction ticks arbitrary: pS out)
  case Nil
  then show ?case by simp
next
  case (Cons tick ticks)
  let ?T = "\<lparr>ledId = 0, state = [NOP, NOP, DO 0 0 65536, NOP, NOP]\<rparr>"
  obtain now new_ok ms where tk: "tick = (now, new_ok, ms)" by (cases tick)
  have "\<exists>pS'. MultiBlink_entry now new_ok ms ?T (pS, out\<lparr>needsUpdate := False\<rparr>)
                = Inr (pS', out\<lparr>needsUpdate := False\<rparr>)
              \<and> enabled pS' \<and> currentState pS' \<in> {0, 1, 2}"
  proof -
    from Cons.prems(2) consider "currentState pS = 0" | "currentState pS = 1" | "currentState pS = 2"
      by auto
    then show ?thesis
    proof cases
      case 1
      then have st: "stateAt ?T (currentState pS) = Inr NOP"
        by (simp add: stateAt_def MAX_STATE_def)
      have "MultiBlink_entry now new_ok ms ?T (pS, out\<lparr>needsUpdate := False\<rparr>)
              = Inr (pS\<lparr>lastWakeup := lastWakeup pS + 0, currentState := 1\<rparr>,
                     out\<lparr>needsUpdate := False\<rparr>)"
        unfolding MultiBlink_entry_enabled [OF Cons.prems(1) st]
        by (simp add: switch_stateID_def NOP_def state_t_defs setNext_sequential MAX_STATE_def 1)
      then show ?thesis using Cons.prems(1) by simp
    next
      case 2
      then have st: "stateAt ?T (currentState pS) = Inr NOP"
        by (simp add: stateAt_def MAX_STATE_def)
      have "MultiBlink_entry now new_ok ms ?T (pS, out\<lparr>needsUpdate := False\<rparr>)
              = Inr (pS\<lparr>lastWakeup := lastWakeup pS + 0, currentState := 2\<rparr>,
                     out\<lparr>needsUpdate := False\<rparr>)"
        unfolding MultiBlink_entry_enabled [OF Cons.prems(1) st]
        by (simp add: switch_stateID_def NOP_def state_t_defs setNext_sequential MAX_STATE_def 2)
      then show ?thesis using Cons.prems(1) by simp
    next
      case 3
      then have st: "stateAt ?T (currentState pS) = Inr (DO 0 0 65536)"
        by (simp add: stateAt_def MAX_STATE_def)
      have ex: "0 \<le> now - lastWakeup pS" by simp
      have "MultiBlink_entry now new_ok ms ?T (pS, out\<lparr>needsUpdate := False\<rparr>)
              = Inr (pS\<lparr>counter := counter pS + 1, lastWakeup := lastWakeup pS + 0,
                        currentState := 0\<rparr>,
                     out\<lparr>needsUpdate := False\<rparr>)"
        unfolding LOOP_expired [OF Cons.prems(1) st ex]
        by (simp add: ucast_16_lt_65536 DO_def setNext_def signed_modulo_int_def MAX_STATE_def)
      then show ?thesis using Cons.prems(1) by simp
    qed
  qed
  then obtain pS' where
    one: "MultiBlink_entry now new_ok ms ?T (pS, out\<lparr>needsUpdate := False\<rparr>)
            = Inr (pS', out\<lparr>needsUpdate := False\<rparr>)"
    and en: "enabled pS'" and cs: "currentState pS' \<in> {0, 1, 2}"
    by blast
  from Cons.IH [OF en cs, of "out\<lparr>needsUpdate := False\<rparr>"] obtain rest where
    r: "entry_passes ticks ?T (pS', out\<lparr>needsUpdate := False\<rparr>) = Inr rest"
    and l: "length rest = length ticks"
    and a: "\<forall>s \<in> set rest. enabled (fst s) \<and> currentState (fst s) \<in> {0, 1, 2}"
    by blast
  from tk one r have "entry_passes (tick # ticks) ?T (pS, out)
      = Inr ((pS', out\<lparr>needsUpdate := False\<rparr>) # rest)"
    by simp
  with l a en cs show ?case by simp
qed

text \<open>
  Runs of passes.  A pass that is not an expiry of a loop entry returns the counter as
  it was; an expiry of \<open>DO(t, j, n)\<close> that finds the counter below \<open>n \<le> 65535\<close> either
  increments it and takes the jump, or resets it and moves on in sequence.
\<close>

lemma not_LOOP_expiry_counter:
  assumes "\<not> is_LOOP_expiry now T pS"
    and "MultiBlink_entry now new_ok ms T (pS, out) = Inr (pS', out')"
  shows "counter pS' = counter pS"
proof (cases "enabled pS")
  case False
  with assms(2) show ?thesis by (simp add: MultiBlink_entry_disabled)
next
  case True
  from assms(2) True obtain sd where st: "stateAt T (currentState pS) = Inr sd"
    by (auto simp add: MultiBlink_entry_def split: sum.splits)
  show ?thesis
  proof (cases "stateID sd = MB_LOOP")
    case False
    from assms(2) st this show ?thesis by (rule counter_unchanged_unless_LOOP)
  next
    case loop: True
    with assms(1) True st have ne: "\<not> activeTime sd \<le> now - lastWakeup pS"
      by (simp add: is_LOOP_expiry_def)
    from assms(2) loop ne show ?thesis
      by (simp add: MultiBlink_entry_enabled [OF True st] switch_stateID_def state_t_defs
          case_MB_LOOP_def setNext_stay)
  qed
qed

lemma is_LOOP_expiry_DO:
  assumes "is_LOOP_expiry now T pS" and "stateAt T (currentState pS) = Inr (DO t j n)"
  shows "enabled pS" and "t \<le> now - lastWakeup pS"
  using assms by (simp_all add: is_LOOP_expiry_def DO_def)

lemma unat_counter_Suc:
  assumes "unat (c :: uint16_t) < m" and "m \<le> 65535"
  shows "unat (c + 1) = unat c + 1"
proof -
  have "unat c + unat (1 :: uint16_t) < 2 ^ LENGTH(16)" using assms by simp
  then have "unat (c + 1) = unat c + unat (1 :: uint16_t)" by (rule unat_add_lem [THEN iffD1])
  then show ?thesis by simp
qed

lemma LOOP_expiry_pass:
  assumes "enabled pS" and "stateAt T (currentState pS) = Inr (DO t j n)"
    and "t \<le> now - lastWakeup pS"
    and "unat (counter pS) < unat n" and "unat n \<le> 65535"
  shows "MultiBlink_entry now new_ok ms T (pS, out) =
           Inr (if unat (counter pS) + 1 < unat n
                then (if (ucast j :: int16_t) = - 1 then pS\<lparr>counter := counter pS + 1\<rparr>
                      else pS\<lparr>counter := counter pS + 1, lastWakeup := lastWakeup pS + t,
                              currentState := word_of_int (sint (ucast j :: int16_t) smod int MAX_STATE)\<rparr>)
                else pS\<lparr>counter := 0, lastWakeup := lastWakeup pS + t,
                        currentState := of_nat ((unat (currentState pS) + 1) mod MAX_STATE)\<rparr>,
                out)"
proof -
  have "unat (ucast (counter pS + 1) :: uint32_t) = unat (counter pS) + 1"
    by (simp only: unat_ucast_16_32 unat_counter_Suc [OF assms(4,5)])
  then have lt: "ucast (counter pS + 1) < n \<longleftrightarrow> unat (counter pS) + 1 < unat n"
    by (simp add: word_less_nat_alt)
  show ?thesis
    unfolding LOOP_expired [OF assms(1,2,3)] lt
    by (simp add: setNext_def DO_def)
qed


lemma LOOP_expiries_run:
  fixes T :: sequence_t and L :: uint8_t and t j n :: uint32_t
  defines "after \<equiv> \<lambda>pre.
             if unat (counter pre) + 1 < unat n
             then (if (ucast j :: int16_t) = - 1 then pre\<lparr>counter := counter pre + 1\<rparr>
                   else pre\<lparr>counter := counter pre + 1, lastWakeup := lastWakeup pre + t,
                            currentState := word_of_int (sint (ucast j :: int16_t) smod int MAX_STATE)\<rparr>)
             else pre\<lparr>counter := 0, lastWakeup := lastWakeup pre + t,
                      currentState := of_nat ((unat L + 1) mod MAX_STATE)\<rparr>"
  assumes st: "stateAt T L = Inr (DO t j n)" and n1: "1 \<le> unat n" and n2: "unat n \<le> 65535"
  shows "unat (counter pS) < unat n
     \<Longrightarrow> \<forall>v \<in> set (LOOP_expiries ticks T (pS, out)). currentState (fst v) = L
     \<Longrightarrow> k < length (LOOP_expiries ticks T (pS, out))
     \<Longrightarrow> (case LOOP_expiries ticks T (pS, out) ! k of
            (pre, post) \<Rightarrow>
              currentState pre = L
              \<and> unat (counter pre) = (unat (counter pS) + k) mod unat n
              \<and> post = after pre)"
proof (induction ticks arbitrary: pS out k)
  case Nil
  then show ?case by simp
next
  case (Cons tick ticks)
  obtain now new_ok ms where tk: "tick = (now, new_ok, ms)" by (cases tick)
  show ?case
  proof (cases "MultiBlink_entry now new_ok ms T (pS, out\<lparr>needsUpdate := False\<rparr>)")
    case (Inl e)
    with Cons.prems(3) tk show ?thesis by simp
  next
    case (Inr res)
    obtain pS' out' where res: "res = (pS', out')" by (cases res)
    with Inr have r: "MultiBlink_entry now new_ok ms T (pS, out\<lparr>needsUpdate := False\<rparr>)
                        = Inr (pS', out')" by simp
    show ?thesis
    proof (cases "is_LOOP_expiry now T pS")
      case False
      with r tk have l: "LOOP_expiries (tick # ticks) T (pS, out) = LOOP_expiries ticks T (pS', out')"
        by simp
      from False r have c: "counter pS' = counter pS" by (rule not_LOOP_expiry_counter)
      from Cons.IH [of pS' out' k] Cons.prems l c show ?thesis by simp
    next
      case True
      with r tk have l: "LOOP_expiries (tick # ticks) T (pS, out)
                           = (pS, pS') # LOOP_expiries ticks T (pS', out')"
        by simp
      from Cons.prems(2) l have cs: "currentState pS = L"
        and rest: "\<forall>v \<in> set (LOOP_expiries ticks T (pS', out')). currentState (fst v) = L"
        by simp_all
      from st cs have st': "stateAt T (currentState pS) = Inr (DO t j n)" by simp
      note ex = is_LOOP_expiry_DO [OF True st']
      have "MultiBlink_entry now new_ok ms T (pS, out\<lparr>needsUpdate := False\<rparr>)
              = Inr (after pS, out\<lparr>needsUpdate := False\<rparr>)"
        unfolding LOOP_expiry_pass [OF ex(1) st' ex(2) Cons.prems(1) n2] after_def cs ..
      with r have p: "pS' = after pS" by simp
      have c': "unat (counter pS') = (unat (counter pS) + 1) mod unat n"
      proof (cases "unat (counter pS) + 1 < unat n")
        case True
        then show ?thesis
          by (simp add: p after_def unat_counter_Suc [OF Cons.prems(1) n2])
      next
        case False
        with Cons.prems(1) have "unat (counter pS) + 1 = unat n" by simp
        with False show ?thesis by (simp add: p after_def)
      qed
      then have lt': "unat (counter pS') < unat n" using n1 by simp
      show ?thesis
      proof (cases k)
        case 0
        with l cs p Cons.prems(1) show ?thesis by simp
      next
        case (Suc k')
        with Cons.prems(3) l have "k' < length (LOOP_expiries ticks T (pS', out'))" by simp
        from Cons.IH [OF lt' rest this] l Suc c' show ?thesis
          by (simp add: mod_add_left_eq)
      qed
    qed
  qed
qed


text \<open>
  When the entry at index \<open>L\<close> is the only loop entry of the table, every expiry of a
  loop entry in a run is an expiry of that one.
\<close>

lemma LOOP_expiries_single_loop:
  assumes "\<And>cs sd. stateAt T cs = Inr sd \<Longrightarrow> stateID sd = MB_LOOP \<Longrightarrow> cs = L"
  shows "\<forall>v \<in> set (LOOP_expiries ticks T (pS, out)). currentState (fst v) = L"
proof (induction ticks arbitrary: pS out)
  case Nil
  then show ?case by simp
next
  case (Cons tick ticks)
  obtain now new_ok ms where tk: "tick = (now, new_ok, ms)" by (cases tick)
  have here: "is_LOOP_expiry now T pS \<Longrightarrow> currentState pS = L"
    using assms [of "currentState pS"]
    by (auto simp add: is_LOOP_expiry_def split: sum.splits)
  show ?case
  proof (cases "MultiBlink_entry now new_ok ms T (pS, out\<lparr>needsUpdate := False\<rparr>)")
    case (Inl e)
    with tk show ?thesis by simp
  next
    case (Inr res)
    obtain pS' out' where "res = (pS', out')" by (cases res)
    with Inr tk Cons.IH [of pS' out'] here show ?thesis by auto
  qed
qed

lemma next_low_target:
  assumes "unat (j :: uint32_t) < 32768"
  shows "(ucast j :: int16_t) \<noteq> - 1"
    and "(word_of_int (sint (ucast j :: int16_t) smod int MAX_STATE) :: uint8_t)
           = of_nat (unat j mod MAX_STATE)"
proof -
  have "unat j < 2 ^ 16" using assms by simp
  then have u: "unat (ucast j :: int16_t) = unat j"
    by (simp add: unsigned_ucast_eq take_bit_nat_eq_self)
  have ui: "uint (ucast j :: int16_t) = uint j"
  proof -
    have "int (unat (ucast j :: int16_t)) = int (unat j)" by (simp only: u)
    then show ?thesis by simp
  qed
  have lt: "uint j < 32768"
  proof -
    have "int (unat j) < int 32768" using assms by (simp only: of_nat_less_iff)
    then show ?thesis by simp
  qed
  have s: "sint (ucast j :: int16_t) = uint j"
    using lt by (simp add: sint_small ui)
  show "(ucast j :: int16_t) \<noteq> - 1"
  proof
    assume "(ucast j :: int16_t) = - 1"
    then have "sint (ucast j :: int16_t) = sint (- 1 :: int16_t)" by (rule arg_cong)
    then have "uint j = - 1" by (simp only: s sint_n1)
    then show False using uint_nonnegative [of j] by simp
  qed
  have "uint j smod 5 = uint j mod 5"
    using uint_nonnegative [of j] by (intro smod_nonneg) simp_all
  also have "\<dots> = int (unat j mod 5)" by (simp add: zmod_int)
  finally have "(word_of_int (sint (ucast j :: int16_t) smod 5) :: uint8_t) = of_nat (unat j mod 5)"
    by (simp only: s of_int_of_nat_eq)
  then show "(word_of_int (sint (ucast j :: int16_t) smod int MAX_STATE) :: uint8_t)
           = of_nat (unat j mod MAX_STATE)"
    by (simp add: MAX_STATE_def)
qed

lemma of_nat_valid_target:
  "unat (j :: uint32_t) < MAX_STATE \<Longrightarrow> (of_nat (unat j mod MAX_STATE) :: uint8_t) = ucast j"
  using next_valid_target(2) [of j] next_low_target(2) [of j] by (simp add: MAX_STATE_def)


text \<open>
  Claim C4, as far as it holds.  Take a loop entry \<open>DO(delay, target, n)\<close> at index \<open>L\<close>
  with \<open>1 \<le> n \<le> 65535\<close>, and a run of passes that starts with the loop counter at 0 (as
  after a reset, or after a loop has fallen through) and in which every expiry of a loop
  entry is an expiry of this one.  The expiries of the run are counted from 0 here: the
  one with number \<open>k\<close> is the \<open>(k + 1)\<close>-th visit.  It finds the counter at \<open>k mod n\<close>.
  When \<open>n\<close> does not divide \<open>k + 1\<close> it takes the jump: the counter is incremented and
  the transition is made with \<open>nextState = target\<close>, which for \<open>target < 32768\<close> puts the
  channel at \<open>target mod MAX_STATE\<close>, that is at \<open>target\<close> for a valid index.  When \<open>n\<close>
  divides \<open>k + 1\<close> the counter is reset to 0 and the channel moves to the next state in
  sequence.  So the channel visits the loop entry exactly \<open>n\<close> times before it falls
  through, jumping at the first \<open>n - 1\<close> of them, and so again for every following \<open>n\<close>
  visits; with \<open>n = 1\<close> every expiry falls through and none jumps.
\<close>

theorem C4_LOOP_repeat_count:
  assumes "stateAt T L = Inr (DO t j n)" and "1 \<le> unat n" and "unat n \<le> 65535"
    and "counter pS = 0"
    and "\<forall>v \<in> set (LOOP_expiries ticks T (pS, out)). currentState (fst v) = L"
    and "k < length (LOOP_expiries ticks T (pS, out))"
  shows "case LOOP_expiries ticks T (pS, out) ! k of
           (pre, post) \<Rightarrow>
             currentState pre = L
             \<and> unat (counter pre) = k mod unat n
             \<and> (Suc k mod unat n \<noteq> 0 \<longrightarrow>
                  post = (if (ucast j :: int16_t) = - 1 then pre\<lparr>counter := counter pre + 1\<rparr>
                          else pre\<lparr>counter := counter pre + 1, lastWakeup := lastWakeup pre + t,
                                   currentState :=
                                     word_of_int (sint (ucast j :: int16_t) smod int MAX_STATE)\<rparr>)
                  \<and> (unat j < 32768 \<longrightarrow>
                        post = pre\<lparr>counter := counter pre + 1, lastWakeup := lastWakeup pre + t,
                                  currentState := of_nat (unat j mod MAX_STATE)\<rparr>)
                  \<and> (unat j < MAX_STATE \<longrightarrow> currentState post = ucast j))
             \<and> (Suc k mod unat n = 0 \<longrightarrow>
                  post = pre\<lparr>counter := 0, lastWakeup := lastWakeup pre + t,
                            currentState := of_nat ((unat L + 1) mod MAX_STATE)\<rparr>)"
proof -
  obtain pre post where v: "LOOP_expiries ticks T (pS, out) ! k = (pre, post)"
    by (cases "LOOP_expiries ticks T (pS, out) ! k")
  have c0: "unat (counter pS) < unat n" using assms(2,4) by simp
  from LOOP_expiries_run [OF assms(1,2,3) c0 assms(5,6)] v assms(4)
  have cs: "currentState pre = L" and c: "unat (counter pre) = k mod unat n"
    and p: "post = (if unat (counter pre) + 1 < unat n
             then (if (ucast j :: int16_t) = - 1 then pre\<lparr>counter := counter pre + 1\<rparr>
                   else pre\<lparr>counter := counter pre + 1, lastWakeup := lastWakeup pre + t,
                            currentState := word_of_int (sint (ucast j :: int16_t) smod int MAX_STATE)\<rparr>)
             else pre\<lparr>counter := 0, lastWakeup := lastWakeup pre + t,
                      currentState := of_nat ((unat L + 1) mod MAX_STATE)\<rparr>)"
    by simp_all
  have npos: "0 < unat n" using assms(2) by simp
  from npos have "k mod unat n < unat n" by simp
  then have j: "unat (counter pre) + 1 < unat n \<longleftrightarrow> Suc k mod unat n \<noteq> 0"
    by (auto simp add: c mod_Suc)
  have low: "unat j < MAX_STATE \<Longrightarrow> unat j < 32768" by (simp add: MAX_STATE_def)
  show ?thesis
    unfolding v using cs c p j
    by (auto simp add: next_low_target of_nat_valid_target low)
qed

theorem C4_LOOP_repeat_count_witness:
  "stateAt T1_0 2 = Inr (DO 0 0 4)
   \<and> 1 \<le> unat (4 :: uint32_t) \<and> unat (4 :: uint32_t) \<le> 65535
   \<and> counter (resetScratchpad 0 S_zero) = 0
   \<and> list_all (\<lambda>v. currentState (fst v) = 2)
        (LOOP_expiries
           [(100, True, 100), (150, True, 150), (150, True, 150),
            (250, True, 250), (300, True, 300), (300, True, 300),
            (400, True, 400), (450, True, 450), (450, True, 450),
            (550, True, 550), (600, True, 600), (600, True, 600)]
           T1_0 (resetScratchpad 0 S_zero, LEDInit))
   \<and> length
        (LOOP_expiries
           [(100, True, 100), (150, True, 150), (150, True, 150),
            (250, True, 250), (300, True, 300), (300, True, 300),
            (400, True, 400), (450, True, 450), (450, True, 450),
            (550, True, 550), (600, True, 600), (600, True, 600)]
           T1_0 (resetScratchpad 0 S_zero, LEDInit)) = 4
   \<and> (case LOOP_expiries
           [(100, True, 100), (150, True, 150), (150, True, 150),
            (250, True, 250), (300, True, 300), (300, True, 300),
            (400, True, 400), (450, True, 450), (450, True, 450),
            (550, True, 550), (600, True, 600), (600, True, 600)]
           T1_0 (resetScratchpad 0 S_zero, LEDInit) ! 0 of
         (pre, post) \<Rightarrow>
           currentState pre = 2 \<and> unat (counter pre) = 0
           \<and> post = pre\<lparr>counter := counter pre + 1, lastWakeup := lastWakeup pre + 0,
                        currentState := 0\<rparr>)
   \<and> (case LOOP_expiries
           [(100, True, 100), (150, True, 150), (150, True, 150),
            (250, True, 250), (300, True, 300), (300, True, 300),
            (400, True, 400), (450, True, 450), (450, True, 450),
            (550, True, 550), (600, True, 600), (600, True, 600)]
           T1_0 (resetScratchpad 0 S_zero, LEDInit) ! 3 of
         (pre, post) \<Rightarrow>
           currentState pre = 2 \<and> unat (counter pre) = 3
           \<and> post = pre\<lparr>counter := 0, lastWakeup := lastWakeup pre + 0, currentState := 3\<rparr>)"
proof -
  let ?ticks = "[(100, True, 100), (150, True, 150), (150, True, 150),
            (250, True, 250), (300, True, 300), (300, True, 300),
            (400, True, 400), (450, True, 450), (450, True, 450),
            (550, True, 550), (600, True, 600), (600 :: uint32_t, True, 600 :: uint32_t)]"
  let ?run = "LOOP_expiries ?ticks T1_0 (resetScratchpad 0 S_zero, LEDInit)"
  have h1: "stateAt T1_0 2 = Inr (DO 0 0 4)"
    by (simp add: stateAt_def T1_0_def MAX_STATE_def)
  have h2: "1 \<le> unat (4 :: uint32_t)" and h3: "unat (4 :: uint32_t) \<le> 65535" by simp_all
  have h4: "counter (resetScratchpad 0 S_zero) = 0" by (simp add: resetScratchpad_def)
  have la: "list_all (\<lambda>v. currentState (fst v) = 2) ?run" by code_simp
  then have h5: "\<forall>v \<in> set ?run. currentState (fst v) = 2" by (simp add: list_all_iff)
  have len: "length ?run = 4" by code_simp
  have k0: "0 < length ?run" and k3: "3 < length ?run" using len by simp_all
  have a: "case ?run ! 0 of
         (pre, post) \<Rightarrow>
           currentState pre = 2 \<and> unat (counter pre) = 0
           \<and> post = pre\<lparr>counter := counter pre + 1, lastWakeup := lastWakeup pre + 0,
                        currentState := 0\<rparr>"
    using C4_LOOP_repeat_count [OF h1 h2 h3 h4 h5 k0] by (auto split: prod.splits)
  have b: "case ?run ! 3 of
         (pre, post) \<Rightarrow>
           currentState pre = 2 \<and> unat (counter pre) = 3
           \<and> post = pre\<lparr>counter := 0, lastWakeup := lastWakeup pre + 0, currentState := 3\<rparr>"
    using C4_LOOP_repeat_count [OF h1 h2 h3 h4 h5 k3] by (auto split: prod.splits simp add: MAX_STATE_def)
  from h1 h2 h3 h4 la len a b show ?thesis by blast
qed

text \<open>
  Claim C10.  A loop entry with repeat count 0 never takes the jump: at expiry the
  counter is reset to 0 and the channel moves to the next state in sequence.  Entered
  with the counter at 0, it does in every pass what the same entry with repeat count 1
  does.
\<close>

theorem C10_LOOP_count_zero:
  assumes "enabled pS" and "stateAt T (currentState pS) = Inr (DO t j 0)"
    and "stateAt T1 (currentState pS) = Inr (DO t j 1)"
  shows "(t \<le> now - lastWakeup pS \<longrightarrow>
            MultiBlink_entry now new_ok ms T (pS, out)
              = Inr (pS\<lparr>counter := 0, lastWakeup := lastWakeup pS + t,
                        currentState := of_nat ((unat (currentState pS) + 1) mod MAX_STATE)\<rparr>, out))
       \<and> (counter pS = 0 \<longrightarrow>
            MultiBlink_entry now new_ok ms T1 (pS, out) = MultiBlink_entry now new_ok ms T (pS, out))"
proof (intro conjI impI)
  assume "t \<le> now - lastWakeup pS"
  then show "MultiBlink_entry now new_ok ms T (pS, out)
              = Inr (pS\<lparr>counter := 0, lastWakeup := lastWakeup pS + t,
                        currentState := of_nat ((unat (currentState pS) + 1) mod MAX_STATE)\<rparr>, out)"
    by (simp add: LOOP_expired [OF assms(1,2)])
next
  assume c: "counter pS = 0"
  show "MultiBlink_entry now new_ok ms T1 (pS, out) = MultiBlink_entry now new_ok ms T (pS, out)"
  proof (cases "t \<le> now - lastWakeup pS")
    case True
    then show ?thesis
      by (simp add: LOOP_expired [OF assms(1,2)] LOOP_expired [OF assms(1,3)] c)
  next
    case False
    then show ?thesis
      by (simp add: LOOP_waiting [OF assms(1,2)] LOOP_waiting [OF assms(1,3)])
  qed
qed

theorem C10_LOOP_count_zero_witness:
  "enabled (resetScratchpad 0 S_zero)
   \<and> stateAt \<lparr>ledId = 0, state = [DO 10 3 0]\<rparr> (currentState (resetScratchpad 0 S_zero))
       = Inr (DO 10 3 0)
   \<and> stateAt \<lparr>ledId = 0, state = [DO 10 3 1]\<rparr> (currentState (resetScratchpad 0 S_zero))
       = Inr (DO 10 3 1)
   \<and> (10 :: uint32_t) \<le> 10 - lastWakeup (resetScratchpad 0 S_zero)
   \<and> counter (resetScratchpad 0 S_zero) = 0
   \<and> MultiBlink_entry 10 True 10 \<lparr>ledId = 0, state = [DO 10 3 0]\<rparr>
        (resetScratchpad 0 S_zero, LEDInit)
       = Inr (\<lparr>enabled = True, currentState = 1, lastWakeup = 10, nf = None, counter = 0\<rparr>,
              LEDInit)
   \<and> MultiBlink_entry 10 True 10 \<lparr>ledId = 0, state = [DO 10 3 1]\<rparr>
        (resetScratchpad 0 S_zero, LEDInit)
       = MultiBlink_entry 10 True 10 \<lparr>ledId = 0, state = [DO 10 3 0]\<rparr>
        (resetScratchpad 0 S_zero, LEDInit)"
proof -
  have h1: "enabled (resetScratchpad 0 S_zero)"
    by (simp add: resetScratchpad_def)
  have h2: "stateAt \<lparr>ledId = 0, state = [DO 10 3 0]\<rparr> (currentState (resetScratchpad 0 S_zero))
       = Inr (DO 10 3 0)"
    by (simp add: resetScratchpad_def stateAt_def MAX_STATE_def)
  have h3: "stateAt \<lparr>ledId = 0, state = [DO 10 3 1]\<rparr> (currentState (resetScratchpad 0 S_zero))
       = Inr (DO 10 3 1)"
    by (simp add: resetScratchpad_def stateAt_def MAX_STATE_def)
  have x: "(10 :: uint32_t) \<le> 10 - lastWakeup (resetScratchpad 0 S_zero)"
    and c: "counter (resetScratchpad 0 S_zero) = 0"
    by (simp_all add: resetScratchpad_def)
  note th = C10_LOOP_count_zero [OF h1 h2 h3, where now = 10 and new_ok = True and ms = 10 and out = LEDInit]
  have a: "MultiBlink_entry 10 True 10 \<lparr>ledId = 0, state = [DO 10 3 0]\<rparr>
        (resetScratchpad 0 S_zero, LEDInit)
       = Inr (\<lparr>enabled = True, currentState = 1, lastWakeup = 10, nf = None, counter = 0\<rparr>,
              LEDInit)"
    using th [THEN conjunct1, rule_format, OF x]
    by (simp add: resetScratchpad_def S_zero_def MAX_STATE_def)
  have b: "MultiBlink_entry 10 True 10 \<lparr>ledId = 0, state = [DO 10 3 1]\<rparr>
        (resetScratchpad 0 S_zero, LEDInit)
       = MultiBlink_entry 10 True 10 \<lparr>ledId = 0, state = [DO 10 3 0]\<rparr>
        (resetScratchpad 0 S_zero, LEDInit)"
    using th [THEN conjunct2, rule_format, OF c] .
  from h1 h2 h3 x c a b show ?thesis by blast
qed

section \<open>MB_SET\<close>

lemma SET_waiting:
  assumes "enabled pS" and "stateAt T (currentState pS) = Inr (SET t c)"
    and "unat (ledId T) < NUM_LEDS" and "now - lastWakeup pS < t"
  shows "MultiBlink_entry now new_ok ms T (pS, out) =
           Inr (pS, if leds out ! unat (ledId T) \<noteq> CRGB_colorcode c
                    then setLed T (CRGB_colorcode c) out else out)"
proof -
  have "\<not> t \<le> now - lastWakeup pS" using assms(4) by simp
  then show ?thesis
    using assms(3)
    by (simp add: MultiBlink_entry_enabled [OF assms(1,2)] switch_stateID_def SET_def
        state_t_defs case_MB_SET_def setNext_stay)
qed

lemma SET_passes_no_write:
  assumes "enabled pS" and "stateAt T (currentState pS) = Inr (SET t c)"
    and "unat (ledId T) < NUM_LEDS"
  shows "\<forall>tk \<in> set ticks. fst tk - lastWakeup pS < t
     \<Longrightarrow> leds out ! unat (ledId T) = CRGB_colorcode c
     \<Longrightarrow> entry_passes ticks T (pS, out)
           = Inr (replicate (length ticks) (pS, out\<lparr>needsUpdate := False\<rparr>))"
proof (induction ticks arbitrary: out)
  case Nil
  then show ?case by simp
next
  case (Cons tick ticks)
  obtain now new_ok ms where tk: "tick = (now, new_ok, ms)" by (cases tick)
  from Cons.prems(1) tk have w: "now - lastWakeup pS < t" by simp
  from Cons.prems(1) have rest: "\<forall>tk \<in> set ticks. fst tk - lastWakeup pS < t" by simp
  have same: "leds (out\<lparr>needsUpdate := False\<rparr>) ! unat (ledId T) = CRGB_colorcode c"
    using Cons.prems(2) by simp
  have one: "MultiBlink_entry now new_ok ms T (pS, out\<lparr>needsUpdate := False\<rparr>)
               = Inr (pS, out\<lparr>needsUpdate := False\<rparr>)"
    using same by (simp add: SET_waiting [OF assms w])
  from Cons.IH [OF rest same] one tk show ?case by simp
qed

text \<open>
  Claim C5.  A SET entry is held over the passes \<open>tick # ticks\<close>, none of which
  reaches its time.  If the LED differs from the color of the entry at the first pass,
  that pass writes it and raises \<open>needsUpdate\<close>; every later pass leaves the LEDs as
  they are and the flag down.  If the LED has the color already, no pass writes or
  raises the flag.
\<close>

theorem C5_SET_written_once:
  assumes "enabled pS" and "stateAt T (currentState pS) = Inr (SET t c)"
    and "unat (ledId T) < NUM_LEDS" and "length (leds out) = NUM_LEDS"
    and "\<forall>tk \<in> set (tick # ticks). fst tk - lastWakeup pS < t"
  shows "entry_passes (tick # ticks) T (pS, out) =
           (if leds out ! unat (ledId T) \<noteq> CRGB_colorcode c
            then Inr ((pS, setLed T (CRGB_colorcode c) out)
                      # replicate (length ticks)
                          (pS, (setLed T (CRGB_colorcode c) out)\<lparr>needsUpdate := False\<rparr>))
            else Inr (replicate (Suc (length ticks)) (pS, out\<lparr>needsUpdate := False\<rparr>)))"
proof (cases "leds out ! unat (ledId T) \<noteq> CRGB_colorcode c")
  case False
  then have "leds out ! unat (ledId T) = CRGB_colorcode c" by simp
  from SET_passes_no_write [OF assms(1,2,3) assms(5) this] False show ?thesis by simp
next
  case True
  obtain now new_ok ms where tk: "tick = (now, new_ok, ms)" by (cases tick)
  from assms(5) tk have w: "now - lastWakeup pS < t" by simp
  from assms(5) have rest: "\<forall>tk \<in> set ticks. fst tk - lastWakeup pS < t" by simp
  have s: "setLed T (CRGB_colorcode c) (out\<lparr>needsUpdate := False\<rparr>) = setLed T (CRGB_colorcode c) out"
    by (simp add: setLed_def)
  have one: "MultiBlink_entry now new_ok ms T (pS, out\<lparr>needsUpdate := False\<rparr>)
               = Inr (pS, setLed T (CRGB_colorcode c) out)"
    using True by (simp add: SET_waiting [OF assms(1,2,3) w] s)
  have written: "leds (setLed T (CRGB_colorcode c) out) ! unat (ledId T) = CRGB_colorcode c"
    using assms(3,4) by (rule leds_setLed)
  from SET_passes_no_write [OF assms(1,2,3) rest written] one tk True show ?thesis by simp
qed

theorem C5_SET_written_once_witness:
  "enabled (resetScratchpad 0 S_zero)
   \<and> stateAt T1_0 (currentState (resetScratchpad 0 S_zero)) = Inr (SET 100 Blue)
   \<and> unat (ledId T1_0) < NUM_LEDS
   \<and> length (leds LEDInit) = NUM_LEDS
   \<and> (10 :: uint32_t) - lastWakeup (resetScratchpad 0 S_zero) < 100
   \<and> (20 :: uint32_t) - lastWakeup (resetScratchpad 0 S_zero) < 100
   \<and> (99 :: uint32_t) - lastWakeup (resetScratchpad 0 S_zero) < 100
   \<and> leds LEDInit ! unat (ledId T1_0) \<noteq> CRGB_colorcode Blue
   \<and> entry_passes [(10, True, 10), (20, True, 20), (99, True, 99)] T1_0
        (resetScratchpad 0 S_zero, LEDInit)
       = Inr [(resetScratchpad 0 S_zero, setLed T1_0 (CRGB_colorcode Blue) LEDInit),
              (resetScratchpad 0 S_zero,
               (setLed T1_0 (CRGB_colorcode Blue) LEDInit)\<lparr>needsUpdate := False\<rparr>),
              (resetScratchpad 0 S_zero,
               (setLed T1_0 (CRGB_colorcode Blue) LEDInit)\<lparr>needsUpdate := False\<rparr>)]
   \<and> needsUpdate (setLed T1_0 (CRGB_colorcode Blue) LEDInit)"
proof -
  have h1: "enabled (resetScratchpad 0 S_zero)"
    by (simp add: resetScratchpad_def)
  have h2: "stateAt T1_0 (currentState (resetScratchpad 0 S_zero)) = Inr (SET 100 Blue)"
    by (simp add: resetScratchpad_def stateAt_def T1_0_def MAX_STATE_def)
  have h3: "unat (ledId T1_0) < NUM_LEDS"
    by (simp add: T1_0_def NUM_LEDS_def)
  have h4: "length (leds LEDInit) = NUM_LEDS"
    by (simp add: LEDInit_def)
  have w: "(10 :: uint32_t) - lastWakeup (resetScratchpad 0 S_zero) < 100"
    "(20 :: uint32_t) - lastWakeup (resetScratchpad 0 S_zero) < 100"
    "(99 :: uint32_t) - lastWakeup (resetScratchpad 0 S_zero) < 100"
    by (simp_all add: resetScratchpad_def)
  have h5: "\<forall>tk \<in> set [(10 :: uint32_t, True, 10 :: uint32_t), (20, True, 20), (99, True, 99)].
              fst tk - lastWakeup (resetScratchpad 0 S_zero) < 100"
    using w by simp
  have d: "leds LEDInit ! unat (ledId T1_0) \<noteq> CRGB_colorcode Blue"
    by (simp add: leds_LEDInit T1_0_def CRGB_colorcode_def Blue_def)
  have a: "entry_passes [(10, True, 10), (20, True, 20), (99, True, 99)] T1_0
        (resetScratchpad 0 S_zero, LEDInit)
       = Inr [(resetScratchpad 0 S_zero, setLed T1_0 (CRGB_colorcode Blue) LEDInit),
              (resetScratchpad 0 S_zero,
               (setLed T1_0 (CRGB_colorcode Blue) LEDInit)\<lparr>needsUpdate := False\<rparr>),
              (resetScratchpad 0 S_zero,
               (setLed T1_0 (CRGB_colorcode Blue) LEDInit)\<lparr>needsUpdate := False\<rparr>)]"
    using C5_SET_written_once [OF h1 h2 h3 h4 h5] d by (simp add: numeral_2_eq_2)
  have u: "needsUpdate (setLed T1_0 (CRGB_colorcode Blue) LEDInit)"
    by (simp add: setLed_def)
  from h1 h2 h3 h4 w d a u show ?thesis by blast
qed

section \<open>MB_STOP and disabled channels\<close>

lemma passes_disabled:
  "\<not> enabled pS \<Longrightarrow> entry_passes ticks T (pS, out)
     = Inr (replicate (length ticks) (pS, out\<lparr>needsUpdate := False\<rparr>))"
proof (induction ticks arbitrary: out)
  case Nil
  then show ?case by simp
next
  case (Cons tick ticks)
  obtain now new_ok ms where tk: "tick = (now, new_ok, ms)" by (cases tick)
  from Cons.IH [OF Cons.prems, of "out\<lparr>needsUpdate := False\<rparr>"] Cons.prems tk
  show ?case by (simp add: MultiBlink_entry_disabled)
qed

lemma MultiBlink_single:
  "MultiBlink now new_ok ms [T] [pS] 1 out =
     (case MultiBlink_entry now (new_ok 0) (ms 0) T (pS, out) of
        Inl e \<Rightarrow> Inl e
      | Inr (pS', out') \<Rightarrow> Inr ([pS'], out'))"
  by (simp add: MultiBlink_def split: sum.splits)

lemma MultiBlink_loop_disabled:
  "MultiBlink_loop now new_ok ms i n pT pS out = Inr (pS', out')
     \<Longrightarrow> k < n \<Longrightarrow> \<not> enabled (pS ! k) \<Longrightarrow> pS' ! k = pS ! k"
proof (induction now new_ok ms i n pT pS out arbitrary: pS' out' k
    rule: MultiBlink_loop.induct)
  case (1 now new_ok ms i pT pS out)
  then show ?case by simp
next
  case (2 now new_ok ms i n T pT s pS out)
  from "2.prems"(1) obtain s1 out1 rest where
    e: "MultiBlink_entry now (new_ok i) (ms i) T (s, out) = Inr (s1, out1)"
    and r: "MultiBlink_loop now new_ok ms (Suc i) n pT pS out1 = Inr (rest, out')"
    and p: "pS' = s1 # rest"
    by (auto split: sum.splits prod.splits)
  show ?case
  proof (cases k)
    case 0
    with "2.prems"(3) have "\<not> enabled s" by simp
    with e have "s1 = s" by (simp add: MultiBlink_entry_disabled)
    with p 0 show ?thesis by simp
  next
    case (Suc k')
    with "2.prems"(2,3) have "k' < n" and "\<not> enabled (pS ! k')" by simp_all
    from "2.IH" [OF e refl r this] p Suc show ?thesis by simp
  qed
qed simp_all

text \<open>
  Claim C6.  A pass over an enabled channel at a STOP entry clears \<open>enabled\<close> and does
  nothing else; in every later pass the scratchpad and the LEDs stay as they are and
  \<open>needsUpdate\<close> is not raised.
\<close>

theorem C6_STOP_terminal:
  assumes "enabled pS" and "stateAt T (currentState pS) = Inr sd" and "stateID sd = MB_STOP"
  shows "MultiBlink_entry now new_ok ms T (pS, out) = Inr (pS\<lparr>enabled := False\<rparr>, out)
       \<and> entry_passes ticks T (pS\<lparr>enabled := False\<rparr>, out)
           = Inr (replicate (length ticks) (pS\<lparr>enabled := False\<rparr>, out\<lparr>needsUpdate := False\<rparr>))"
proof
  show "MultiBlink_entry now new_ok ms T (pS, out) = Inr (pS\<lparr>enabled := False\<rparr>, out)"
    using assms(3)
    by (simp add: MultiBlink_entry_enabled [OF assms(1,2)] switch_stateID_def state_t_defs
        setNext_stay)
  show "entry_passes ticks T (pS\<lparr>enabled := False\<rparr>, out)
           = Inr (replicate (length ticks) (pS\<lparr>enabled := False\<rparr>, out\<lparr>needsUpdate := False\<rparr>))"
    by (rule passes_disabled) simp
qed

theorem C6_STOP_terminal_witness:
  "enabled \<lparr>enabled = True, currentState = 3, lastWakeup = 5096, nf = None, counter = 0\<rparr>
   \<and> stateAt T2_2 3 = Inr STOP
   \<and> stateID STOP = MB_STOP
   \<and> MultiBlink_entry 5096 True 5096 T2_2
        (\<lparr>enabled = True, currentState = 3, lastWakeup = 5096, nf = None, counter = 0\<rparr>, LEDInit)
       = Inr (\<lparr>enabled = False, currentState = 3, lastWakeup = 5096, nf = None, counter = 0\<rparr>,
              LEDInit)
   \<and> entry_passes [(5097, True, 5097), (9000, False, 9001)] T2_2
        (\<lparr>enabled = False, currentState = 3, lastWakeup = 5096, nf = None, counter = 0\<rparr>, LEDInit)
       = Inr [(\<lparr>enabled = False, currentState = 3, lastWakeup = 5096, nf = None, counter = 0\<rparr>,
               LEDInit\<lparr>needsUpdate := False\<rparr>),
              (\<lparr>enabled = False, currentState = 3, lastWakeup = 5096, nf = None, counter = 0\<rparr>,
               LEDInit\<lparr>needsUpdate := False\<rparr>)]"
proof -
  let ?p = "\<lparr>enabled = True, currentState = 3, lastWakeup = 5096, nf = None, counter = 0\<rparr>"
  have st: "stateAt T2_2 3 = Inr STOP"
    by (simp add: stateAt_def T2_2_def MAX_STATE_def)
  have h1: "enabled ?p" by simp
  have h2: "stateAt T2_2 (currentState ?p) = Inr STOP" using st by simp
  have h3: "stateID STOP = MB_STOP" by (simp add: STOP_def)
  from C6_STOP_terminal [OF h1 h2 h3, where now = 5096 and new_ok = True and ms = 5096 and out = LEDInit
      and ticks = "[(5097, True, 5097), (9000, False, 9001)]"] h1 st h3
  show ?thesis by (simp add: numeral_2_eq_2)
qed

section \<open>BlinkInit: the reset\<close>

lemma BlinkInit_loop_Inr:
  "n \<le> length pS \<Longrightarrow>
     BlinkInit_loop now n pS = Inr (map (resetScratchpad now) (take n pS) @ drop n pS)"
proof (induction n arbitrary: pS)
  case 0
  then show ?case by simp
next
  case (Suc n)
  then obtain s rest where p: "pS = s # rest" by (cases pS) auto
  with Suc.prems have "n \<le> length rest" by simp
  from Suc.IH [OF this] p show ?case by simp
qed

text \<open>
  Claim C7.  \<open>BlinkInit\<close> over the first \<open>tableSize\<close> scratchpads returns, and in each
  of them \<open>enabled\<close> is true, \<open>currentState\<close> and \<open>counter\<close> are 0, \<open>lastWakeup\<close> is the
  reset time and no fade object is owned; \<open>needsUpdate\<close> is raised.
\<close>

theorem C7_BlinkInit_resets:
  assumes "unat tableSize \<le> length pS"
  shows "\<exists>pS'. BlinkInit now pS tableSize out = Inr (pS', out\<lparr>needsUpdate := True\<rparr>)
           \<and> length pS' = length pS
           \<and> (\<forall>i < unat tableSize.
                 enabled (pS' ! i) \<and> currentState (pS' ! i) = 0 \<and> counter (pS' ! i) = 0
                   \<and> lastWakeup (pS' ! i) = now \<and> nf (pS' ! i) = None)"
proof (intro exI conjI allI impI)
  show "BlinkInit now pS tableSize out
          = Inr (map (resetScratchpad now) (take (unat tableSize) pS) @ drop (unat tableSize) pS,
                 out\<lparr>needsUpdate := True\<rparr>)"
    by (simp add: BlinkInit_def BlinkInit_loop_Inr [OF assms])
  show "length (map (resetScratchpad now) (take (unat tableSize) pS) @ drop (unat tableSize) pS)
          = length pS"
    using assms by simp
next
  fix i
  assume i: "i < unat tableSize"
  with assms have "(map (resetScratchpad now) (take (unat tableSize) pS) @ drop (unat tableSize) pS) ! i
                     = resetScratchpad now (pS ! i)"
    by (simp add: nth_append)
  then show "enabled ((map (resetScratchpad now) (take (unat tableSize) pS) @ drop (unat tableSize) pS) ! i)"
    and "currentState ((map (resetScratchpad now) (take (unat tableSize) pS) @ drop (unat tableSize) pS) ! i) = 0"
    and "counter ((map (resetScratchpad now) (take (unat tableSize) pS) @ drop (unat tableSize) pS) ! i) = 0"
    and "lastWakeup ((map (resetScratchpad now) (take (unat tableSize) pS) @ drop (unat tableSize) pS) ! i) = now"
    and "nf ((map (resetScratchpad now) (take (unat tableSize) pS) @ drop (unat tableSize) pS) ! i) = None"
    by (simp_all add: resetScratchpad_def)
qed

theorem C7_BlinkInit_resets_witness:
  "unat (2 :: uint8_t) \<le> length [S_zero, S_zero\<lparr>currentState := 3, lastWakeup := 77, counter := 2\<rparr>]
   \<and> (\<exists>pS'. BlinkInit 1000 [S_zero, S_zero\<lparr>currentState := 3, lastWakeup := 77, counter := 2\<rparr>]
                2 LEDInit = Inr (pS', LEDInit\<lparr>needsUpdate := True\<rparr>)
         \<and> length pS' = 2
         \<and> enabled (pS' ! 1) \<and> currentState (pS' ! 1) = 0 \<and> counter (pS' ! 1) = 0
         \<and> lastWakeup (pS' ! 1) = 1000 \<and> nf (pS' ! 1) = None)"
proof -
  have h: "unat (2 :: uint8_t) \<le> length [S_zero, S_zero\<lparr>currentState := 3, lastWakeup := 77, counter := 2\<rparr>]"
    by simp
  from C7_BlinkInit_resets [OF h, of 1000 LEDInit] h show ?thesis by auto
qed


end
